theory Spec2Isabelle
  imports
    Main
    "HOL-Library.Word"
    "HOL-Library.Char_ord"
    "HOL-Library.List_Lexorder"
    "HOL-Library.AList"
begin

unbundle bit_operations_syntax

section \<open>Go values used by the channel and the liveness check\<close>

text \<open>
  A Go \<open>string\<close> is a sequence of bytes and is modelled as \<open>string\<close> (a list of
  8-bit characters).  Go compares strings byte by byte; this is the order that
  \<open>Char_ord\<close> and \<open>List_Lexorder\<close> put on \<open>string\<close>.  Go's \<open>int\<close> and \<open>int64\<close>
  are 64-bit two's complement values on the 64-bit targets of the agent and are
  modelled as \<open>64 word\<close>: \<open>+\<close> wraps, \<open>sint\<close> reads the signed value.
\<close>

type_synonym go_int = "64 word"

datatype num_err = ErrSyntax | ErrRange

datatype go_error =
    ErrorString string          \<comment> \<open>\<open>errors.New(msg)\<close>\<close>
  | NumError string num_err     \<comment> \<open>\<open>*strconv.NumError\<close> of \<open>ParseInt\<close>: the input and the cause\<close>
  | PathError string string     \<comment> \<open>\<open>*os.PathError\<close>: the operation and the path\<close>
  | ExecError string            \<comment> \<open>a failure of \<open>exec.Command(...).CombinedOutput()\<close>\<close>

subsection \<open>Package \<open>strings\<close>\<close>

text \<open>\<open>strings.Split(s, sep)\<close> for a separator of one byte, as at both call sites
  (\<open>"-"\<close> and \<open>"\n"\<close>): the result always has at least one element.\<close>

fun split_scan :: "string \<Rightarrow> char \<Rightarrow> string \<Rightarrow> string list" where
  "split_scan [] sep cur = [rev cur]"
| "split_scan (c # cs) sep cur =
     (if c = sep then rev cur # split_scan cs sep [] else split_scan cs sep (c # cur))"

definition strings_Split :: "string \<Rightarrow> char \<Rightarrow> string list" where
  "strings_Split s sep = split_scan s sep []"

text \<open>\<open>strings.Contains(s, substr)\<close>: \<open>substr\<close> occurs in \<open>s\<close>; the empty string
  occurs in every string.\<close>

fun strings_Contains :: "string \<Rightarrow> string \<Rightarrow> bool" where
  "strings_Contains [] substr = (substr = [])"
| "strings_Contains (c # cs) substr =
     (if take (length substr) (c # cs) = substr then True else strings_Contains cs substr)"

text \<open>
  \<open>strings.Fields(s)\<close> splits around runs of white space as \<open>unicode.IsSpace\<close>
  defines it.  On the bytes of a string that is: the six ASCII space bytes, and the
  UTF-8 encodings of U+0085, U+00A0, U+1680, U+2000..U+200A, U+2028, U+2029, U+202F,
  U+205F and U+3000.  \<open>space_width s\<close> is the number of bytes of the white-space
  rune \<open>s\<close> starts with, 0 when it starts with none.
\<close>

definition ascii_space :: "char \<Rightarrow> bool" where
  "ascii_space c \<longleftrightarrow> c \<in> set [CHR 0x09, CHR 0x0A, CHR 0x0B, CHR 0x0C, CHR 0x0D, CHR 0x20]"

fun space_width :: "string \<Rightarrow> nat" where
  "space_width [] = 0"
| "space_width (c # cs) =
     (if ascii_space c then 1
      else if c = CHR 0xC2 \<and> (take 1 cs = [CHR 0x85] \<or> take 1 cs = [CHR 0xA0]) then 2
      else if c = CHR 0xE1 \<and> take 2 cs = [CHR 0x9A, CHR 0x80] then 3
      else if c = CHR 0xE2 \<and> take 1 cs = [CHR 0x80] \<and> length cs \<ge> 2 \<and>
              (cs ! 1 \<le> CHR 0x8A \<and> CHR 0x80 \<le> cs ! 1 \<or>
               cs ! 1 \<in> set [CHR 0xA8, CHR 0xA9, CHR 0xAF]) then 3
      else if c = CHR 0xE2 \<and> take 2 cs = [CHR 0x81, CHR 0x9F] then 3
      else if c = CHR 0xE3 \<and> take 2 cs = [CHR 0x80, CHR 0x80] then 3
      else 0)"

text \<open>The scan of \<open>Fields\<close>: \<open>cur\<close> is the field being read (reversed), \<open>skip\<close>
  counts the bytes of a white-space rune still to pass over.\<close>

fun fields_scan :: "string \<Rightarrow> string \<Rightarrow> nat \<Rightarrow> string list" where
  "fields_scan [] cur skip = (if cur = [] then [] else [rev cur])"
| "fields_scan (c # cs) cur (Suc k) = fields_scan cs cur k"
| "fields_scan (c # cs) cur 0 =
     (case space_width (c # cs) of
        0 \<Rightarrow> fields_scan cs (c # cur) 0
      | Suc k \<Rightarrow> (if cur = [] then [] else [rev cur]) @ fields_scan cs [] k)"

definition strings_Fields :: "string \<Rightarrow> string list" where
  "strings_Fields s = fields_scan s [] 0"

subsection \<open>Package \<open>strconv\<close>\<close>

definition is_digit :: "char \<Rightarrow> bool" where
  "is_digit c \<longleftrightarrow> CHR ''0'' \<le> c \<and> c \<le> CHR ''9''"

definition digit_val :: "char \<Rightarrow> int" where
  "digit_val c = of_char c - 48"

definition decimal_val :: "string \<Rightarrow> int" where
  "decimal_val ds = foldl (\<lambda>acc c. 10 * acc + digit_val c) 0 ds"

text \<open>
  \<open>strconv.ParseInt(s, 10, 64)\<close>: an optional sign, then one or more decimal
  digits; a value outside \<open>[-2^63, 2^63 - 1]\<close> is a range error.  Both callers look
  at the value only when there is no error.
\<close>

definition strconv_ParseInt :: "string \<Rightarrow> go_error + go_int" where
  "strconv_ParseInt s =
     (if s = [] then Inl (NumError s ErrSyntax)
      else
        let neg = (hd s = CHR ''-'');
            ds = (if hd s = CHR ''+'' \<or> hd s = CHR ''-'' then tl s else s)
        in if ds = [] \<or> \<not> list_all is_digit ds then Inl (NumError s ErrSyntax)
           else
             let un = decimal_val ds
             in if \<not> neg \<and> un \<ge> 2 ^ 63 then Inl (NumError s ErrRange)
                else if neg \<and> un > 2 ^ 63 then Inl (NumError s ErrRange)
                else Inr (word_of_int (if neg then - un else un)))"

subsection \<open>Package \<open>fmt\<close>\<close>

definition digit_char :: "nat \<Rightarrow> char" where
  "digit_char d = ''0123456789'' ! (d mod 10)"

fun decimal :: "nat \<Rightarrow> string" where
  "decimal n = (if n < 10 then [digit_char n] else decimal (n div 10) @ [digit_char (n mod 10)])"

declare decimal.simps [simp del]

text \<open>The verb \<open>%03d\<close>: the decimal digits padded with zeros on the left to a
  width of at least three, the sign of a negative number counting for one column.
  A number with more digits is printed in full.\<close>

definition zero_pad :: "nat \<Rightarrow> string \<Rightarrow> string" where
  "zero_pad w ds = replicate (w - length ds) (CHR ''0'') @ ds"

definition fmt_03d :: "go_int \<Rightarrow> string" where
  "fmt_03d n =
     (if sint n < 0 then CHR ''-'' # zero_pad 2 (decimal (nat (- sint n)))
      else zero_pad 3 (decimal (nat (sint n))))"

subsection \<open>Package \<open>path\<close>\<close>

text \<open>\<open>path.Split\<close> cuts right after the last slash; without a slash the
  directory part is empty.\<close>

definition path_Split :: "string \<Rightarrow> string \<times> string" where
  "path_Split p =
     (let file = rev (takeWhile (\<lambda>c. c \<noteq> CHR ''/'') (rev p))
      in (take (length p - length file) p, file))"

fun join_slash :: "string list \<Rightarrow> string" where
  "join_slash [] = []"
| "join_slash [e] = e"
| "join_slash (e # es) = e @ CHR ''/'' # join_slash es"

text \<open>One element of the path in \<open>path.Clean\<close>: empty elements and \<open>.\<close> are
  dropped, \<open>..\<close> removes the element before it when there is one to remove, is
  dropped at the root, and is kept at the front of a relative path.\<close>

definition clean_step :: "bool \<Rightarrow> string list \<Rightarrow> string \<Rightarrow> string list" where
  "clean_step rooted out e =
     (if e = [] \<or> e = ''.'' then out
      else if e = ''..'' then
        (if out \<noteq> [] \<and> last out \<noteq> ''..'' then butlast out
         else if rooted then out
         else out @ [e])
      else out @ [e])"

definition path_Clean :: "string \<Rightarrow> string" where
  "path_Clean p =
     (if p = [] then ''.''
      else
        let rooted = (hd p = CHR ''/'');
            out = foldl (clean_step rooted) [] (strings_Split p (CHR ''/''))
        in if rooted then CHR ''/'' # join_slash out
           else if out = [] then ''.''
           else join_slash out)"

text \<open>\<open>path.Join(a, b)\<close>: empty elements are ignored, the rest are joined with a
  slash and cleaned; the result is empty when both are.\<close>

definition path_Join :: "string \<Rightarrow> string \<Rightarrow> string" where
  "path_Join a b =
     (if a = [] \<and> b = [] then []
      else if a = [] then path_Clean b
      else path_Clean (a @ CHR ''/'' # b))"

subsection \<open>Package \<open>regexp\<close>\<close>

text \<open>
  The fragment of regular expressions that the channel's pattern uses: a sequence
  of items, each a character class or a literal, taken once or one or more times
  (\<open>+\<close>).  \<open>regexp.MatchString\<close> is not anchored: it reports whether the pattern
  matches some substring.  A class is a list of inclusive byte ranges.
\<close>

datatype re_atom = Lit char | Class "(char \<times> char) list"

datatype re_item = Once re_atom | Plus re_atom

fun atom_matches :: "re_atom \<Rightarrow> char \<Rightarrow> bool" where
  "atom_matches (Lit l) c = (c = l)"
| "atom_matches (Class rs) c = list_ex (\<lambda>(lo, hi). lo \<le> c \<and> c \<le> hi) rs"

fun match_here :: "re_item list \<Rightarrow> string \<Rightarrow> bool" where
  "match_here [] s = True"
| "match_here (i # r) [] = False"
| "match_here (Once a # r) (c # cs) = (if atom_matches a c then match_here r cs else False)"
| "match_here (Plus a # r) (c # cs) =
     (if atom_matches a c
      then (if match_here r cs then True else match_here (Plus a # r) cs)
      else False)"

fun regexp_MatchString :: "re_item list \<Rightarrow> string \<Rightarrow> bool" where
  "regexp_MatchString re [] = match_here re []"
| "regexp_MatchString re (c # cs) =
     (if match_here re (c # cs) then True else regexp_MatchString re cs)"

text \<open>The pattern \<open>[a-zA-Z]+-[0-9]+-[0-9]+\<close> of \<open>isReadable\<close>.\<close>

definition letter_class :: re_atom where
  "letter_class = Class [(CHR ''a'', CHR ''z''), (CHR ''A'', CHR ''Z'')]"

definition digit_class :: re_atom where
  "digit_class = Class [(CHR ''0'', CHR ''9'')]"

definition sequence_pattern :: "re_item list" where
  "sequence_pattern =
     [Plus letter_class, Once (Lit (CHR ''-'')), Plus digit_class,
      Once (Lit (CHR ''-'')), Plus digit_class]"

section \<open>The file system\<close>

text \<open>
  The channel talks to its peer through a directory.  The file system is a table
  from cleaned path names to nodes; a path argument is resolved lexically with
  \<open>path_Clean\<close>, and a node lies in the directory that \<open>path_Dir\<close> of its name
  gives.  Besides the failures that follow from the table (a missing file, a
  missing parent directory, a directory where a file is expected), a call can fail
  for reasons the table does not show, such as permissions or a file the other end
  holds open exclusively: \<open>faults\<close> gives the error of each such call.  A failed
  call leaves the table as it was; only \<open>os.RemoveAll\<close>, which is many removals,
  has removed what it could when it fails.
\<close>

datatype node = File string | Dir

datatype syscall =
    SysWriteFile string
  | SysRename string string
  | SysReadFile string
  | SysRemove string
  | SysReadDir string

record filesystem =
  nodes :: "(string \<times> node) list"
  faults :: "syscall \<Rightarrow> go_error option"

definition path_Dir :: "string \<Rightarrow> string" where
  "path_Dir p = path_Clean (fst (path_Split p))"

definition lookup :: "filesystem \<Rightarrow> string \<Rightarrow> node option" where
  "lookup fs p = map_of (nodes fs) (path_Clean p)"

text \<open>The names of the entries directly in directory \<open>d\<close> (a cleaned path).\<close>

definition entries :: "filesystem \<Rightarrow> string \<Rightarrow> string list" where
  "entries fs d =
     remdups (map (\<lambda>(k, n). snd (path_Split k))
       (filter (\<lambda>(k, n). k \<noteq> d \<and> path_Dir k = d) (nodes fs)))"

text \<open>\<open>below d k\<close>: the cleaned path \<open>k\<close> is \<open>d\<close> itself or lies in the tree under it.\<close>

definition below :: "string \<Rightarrow> string \<Rightarrow> bool" where
  "below d k =
     (let pre = (if d = ''/'' then d else d @ ''/'')
      in k = d \<or> take (length pre) k = pre)"

text \<open>\<open>ioutil.WriteFile(name, data, perm)\<close> creates the file or truncates the one
  that is there, and writes the data.  The permission bits (\<open>os.ModeExclusive | 0660\<close>
  in \<open>Send\<close>) play no part in whether an existing file is opened again.\<close>

definition ioutil_WriteFile :: "string \<Rightarrow> string \<Rightarrow> filesystem \<Rightarrow> go_error option \<times> filesystem" where
  "ioutil_WriteFile name data fs =
     (case faults fs (SysWriteFile name) of
        Some e \<Rightarrow> (Some e, fs)
      | None \<Rightarrow>
          if name = [] \<or> lookup fs (path_Dir (path_Clean name)) \<noteq> Some Dir
             \<or> lookup fs name = Some Dir
          then (Some (PathError ''open'' name), fs)
          else (None, fs\<lparr>nodes := AList.update (path_Clean name) (File data) (nodes fs)\<rparr>))"

text \<open>\<open>os.Rename(oldpath, newpath)\<close> moves a file, replacing a file of the new
  name.  The channel renames only the file it has just written; moving a directory
  is not modelled and is an error here.\<close>

definition os_Rename :: "string \<Rightarrow> string \<Rightarrow> filesystem \<Rightarrow> go_error option \<times> filesystem" where
  "os_Rename oldpath newpath fs =
     (case faults fs (SysRename oldpath newpath) of
        Some e \<Rightarrow> (Some e, fs)
      | None \<Rightarrow>
          (case lookup fs oldpath of
             Some (File data) \<Rightarrow>
               if oldpath = [] \<or> newpath = []
                  \<or> lookup fs (path_Dir (path_Clean newpath)) \<noteq> Some Dir
                  \<or> lookup fs newpath = Some Dir
               then (Some (PathError ''rename'' oldpath), fs)
               else (None, fs\<lparr>nodes := AList.update (path_Clean newpath) (File data)
                                 (AList.delete (path_Clean oldpath) (nodes fs))\<rparr>)
           | _ \<Rightarrow> (Some (PathError ''rename'' oldpath), fs)))"

definition ioutil_ReadFile :: "string \<Rightarrow> filesystem \<Rightarrow> go_error + string" where
  "ioutil_ReadFile filename fs =
     (case faults fs (SysReadFile filename) of
        Some e \<Rightarrow> Inl e
      | None \<Rightarrow>
          (case lookup fs filename of
             Some (File data) \<Rightarrow>
               if filename = [] then Inl (PathError ''open'' filename) else Inr data
           | _ \<Rightarrow> Inl (PathError ''open'' filename)))"

text \<open>\<open>os.Remove(name)\<close> removes a file or an empty directory.\<close>

definition os_Remove :: "string \<Rightarrow> filesystem \<Rightarrow> go_error option \<times> filesystem" where
  "os_Remove name fs =
     (case faults fs (SysRemove name) of
        Some e \<Rightarrow> (Some e, fs)
      | None \<Rightarrow>
          if name = [] \<or> lookup fs name = None
             \<or> (lookup fs name = Some Dir \<and> entries fs (path_Clean name) \<noteq> [])
          then (Some (PathError ''remove'' name), fs)
          else (None, fs\<lparr>nodes := AList.delete (path_Clean name) (nodes fs)\<rparr>))"

text \<open>\<open>ioutil.ReadDir(dirname)\<close> returns the entries sorted by name, and no
  entries at all together with an error.\<close>

definition ioutil_ReadDir :: "string \<Rightarrow> filesystem \<Rightarrow> go_error + string list" where
  "ioutil_ReadDir dirname fs =
     (case faults fs (SysReadDir dirname) of
        Some e \<Rightarrow> Inl e
      | None \<Rightarrow>
          if dirname \<noteq> [] \<and> lookup fs dirname = Some Dir
          then Inr (sort (entries fs (path_Clean dirname)))
          else Inl (PathError ''open'' dirname))"

text \<open>
  \<open>os.RemoveAll(path)\<close> removes the path and everything below it.  An empty path
  and a path that does not exist are no error.  A path that ends in a dot element
  (\<open>.\<close> itself, or one ending in \<open>/.\<close>) is refused with an error before anything is
  removed.  Otherwise the call removes what it can and carries on: a node whose
  removal fails (\<open>stuck\<close>) stays, and with it every directory above it in the tree,
  which is then not empty; everything else in the tree is removed.  The call
  returns an error when something is left; which of the errors it met it returns
  depends on the order in which the system lists the directories, and the first
  one in the table stands for it.
\<close>

definition endsWithDot :: "string \<Rightarrow> bool" where
  "endsWithDot p \<longleftrightarrow> p = ''.'' \<or> (length p \<ge> 2 \<and> drop (length p - 2) p = ''/.'')"

definition stuck :: "filesystem \<Rightarrow> string \<Rightarrow> bool" where
  "stuck fs k \<longleftrightarrow> faults fs (SysRemove k) \<noteq> None"

definition survives :: "filesystem \<Rightarrow> string \<Rightarrow> string \<Rightarrow> bool" where
  "survives fs d k \<longleftrightarrow> list_ex (\<lambda>(j, n). below d j \<and> below k j \<and> stuck fs j) (nodes fs)"

definition os_RemoveAll :: "string \<Rightarrow> filesystem \<Rightarrow> go_error option \<times> filesystem" where
  "os_RemoveAll p fs =
     (if p = [] then (None, fs)
      else if endsWithDot p then (Some (PathError ''RemoveAll'' p), fs)
      else
        let d = path_Clean p;
            left = filter (\<lambda>(k, n). below d k \<and> stuck fs k) (nodes fs);
            err = (case left of [] \<Rightarrow> None | (k, n) # rest \<Rightarrow> faults fs (SysRemove k))
        in (err, fs\<lparr>nodes := filter (\<lambda>(k, n). survives fs d k \<or> \<not> below d k) (nodes fs)\<rparr>))"

section \<open>The file watcher channel\<close>

subsection \<open>Events and the log\<close>

text \<open>An \<open>fsnotify.Event\<close>: the path of the file and the bit mask of what happened
  to it; \<open>fsnotify.Create\<close> is the lowest bit.\<close>

record fsnotify_Event =
  Name :: string
  Op :: "32 word"

definition fsnotify_Create :: "32 word" where
  "fsnotify_Create = 1"

text \<open>A line of the log keeps the call as the source makes it: the level, the
  format string of \<open>Debugf\<close>, \<open>Infof\<close> and \<open>Errorf\<close>, and the arguments.\<close>

datatype log_level = Debug | Info | Error

datatype log_arg = S string | E go_error | Ev fsnotify_Event

datatype log_entry = Log log_level "log_arg list" | Logf log_level string "log_arg list"

subsection \<open>The channel and its world\<close>

text \<open>
  \<open>Mode\<close> is a string type of the channel package (\<open>string(ch.mode)\<close>).  The stream
  \<open>onMessageChan\<close> is the sequence of payloads pushed so far, oldest first; a push
  into the full buffer waits for the reader, and the state is the one after it.  The
  fields \<open>logger\<close>, \<open>watcher\<close> and \<open>mu\<close> have no value of their own here: what is
  logged is part of the state, the watcher is the sequence of events the loop
  receives, and every operation runs alone from its first step to its last.
\<close>

type_synonym Mode = string

record fileWatcherChannel =
  path :: string
  tmpPath :: string
  onMessageChan :: "string list"
  mode :: Mode
  counter :: go_int
  recvCounter :: go_int
  startTime :: string
  closed :: bool

record state =
  ch :: fileWatcherChannel
  fs :: filesystem
  logged :: "log_entry list"

definition logs :: "log_entry \<Rightarrow> state \<Rightarrow> state" where
  "logs l s = s\<lparr>logged := logged s @ [l]\<rparr>"

subsection \<open>Send\<close>

text \<open>\<open>fmt.Sprintf("%v-%s-%03d", ch.mode, ch.startTime, ch.counter)\<close>\<close>

definition sequenceID :: "Mode \<Rightarrow> string \<Rightarrow> go_int \<Rightarrow> string" where
  "sequenceID m t n = m @ ''-'' @ t @ ''-'' @ fmt_03d n"

definition Send :: "string \<Rightarrow> state \<Rightarrow> go_error option \<times> state" where
  "Send rawJson s =
     (if closed (ch s) then (Some (ErrorString ''channel already closed''), s)
      else
        let seqID = sequenceID (mode (ch s)) (startTime (ch s)) (counter (ch s));
            filepath = path_Join (path (ch s)) seqID;
            tmp_filepath = path_Join (tmpPath (ch s)) seqID
        in case ioutil_WriteFile tmp_filepath rawJson (fs s) of
             (Some err, fs1) \<Rightarrow>
               (Some err,
                logs (Logf Error (''write file %v encountered error: %v '' @ [CHR 0x0A])
                        [S tmp_filepath, E err])
                  (s\<lparr>fs := fs1\<rparr>))
           | (None, fs1) \<Rightarrow>
               (case os_Rename tmp_filepath filepath fs1 of
                  (Some err, fs2) \<Rightarrow>
                    (Some err,
                     logs (Logf Error ''send renaming file encountered error: %v'' [E err])
                       (s\<lparr>fs := fs2\<rparr>))
                | (None, fs2) \<Rightarrow>
                    (None, s\<lparr>fs := fs2, ch := (ch s)\<lparr>counter := counter (ch s) + 1\<rparr>\<rparr>)))"

subsection \<open>Receiving\<close>

definition parseSequenceCounter :: "string \<Rightarrow> go_int" where
  "parseSequenceCounter filepath =
     (let name = snd (path_Split filepath);
          parts = strings_Split name (CHR ''-'')
      in case strconv_ParseInt (last parts) of
           Inl err \<Rightarrow> - 1
         | Inr n \<Rightarrow> n)"

definition isReadable :: "fileWatcherChannel \<Rightarrow> string \<Rightarrow> bool" where
  "isReadable c filename =
     (if \<not> regexp_MatchString sequence_pattern filename then False
      else \<not> strings_Contains filename (mode c) \<and> \<not> strings_Contains filename ''tmp'')"

definition consume :: "string \<Rightarrow> state \<Rightarrow> state" where
  "consume filepath s =
     (let s1 = logs (Logf Debug ''consuming message under path: %v'' [S filepath]) s
      in case ioutil_ReadFile filepath (fs s1) of
           Inl err \<Rightarrow>
             logs (Logf Error (''message %v failed to read: %v '' @ [CHR 0x0A]) [S filepath, E err]) s1
         | Inr buf \<Rightarrow>
             s1\<lparr>fs := snd (os_Remove filepath (fs s1)),
                ch := (ch s1)\<lparr>recvCounter := parseSequenceCounter filepath + 1,
                              onMessageChan := onMessageChan (ch s1) @ [buf]\<rparr>\<rparr>)"

text \<open>The loop of \<open>consumeAll\<close> over the names that \<open>ReadDir\<close> returned.\<close>

fun consumeEach :: "string list \<Rightarrow> state \<Rightarrow> state" where
  "consumeEach [] s = s"
| "consumeEach (name # infos) s =
     consumeEach infos
       (if isReadable (ch s) name then consume (path_Join (path (ch s)) name) s else s)"

definition consumeAll :: "state \<Rightarrow> state" where
  "consumeAll s =
     (let s1 = logs (Log Debug [S ''consuming all the messages under: '', S (path (ch s))]) s;
          fileInfos = (case ioutil_ReadDir (path (ch s1)) (fs s1) of
                         Inl err \<Rightarrow> []
                       | Inr infos \<Rightarrow> infos)
      in if length fileInfos > 0 then consumeEach fileInfos s1 else s1)"

subsection \<open>The watch loop\<close>


definition watchEvent :: "fsnotify_Event \<Rightarrow> state \<Rightarrow> state" where
  "watchEvent event s =
     (let s1 = logs (Log Debug [S ''received event: '', Ev event]) s
      in if Op event AND fsnotify_Create = fsnotify_Create \<and> isReadable (ch s1) (Name event)
         then
           if parseSequenceCounter (Name event) = recvCounter (ch s1)
           then consume (Name event) s1
           else consumeAll
                  (logs (Log Debug [S ''received out-of-order file update, polling the dir to reorder'']) s1)
         else s1)"



subsection \<open>Close and Destroy\<close>

text \<open>\<open>Close\<close> ends by starting a task of its own that takes the directory off the
  watcher, closes the watcher and then the stream.  That task touches neither the
  counters nor the file system and runs beside the caller; it is not part of the
  state that \<open>Close\<close> returns.\<close>

definition Close :: "state \<Rightarrow> state" where
  "Close s =
     (if closed (ch s) then s
      else
        let s1 = logs (Logf Info ''channel %v requested close'' [S (path (ch s))]) s;
            s2 = s1\<lparr>ch := (ch s1)\<lparr>closed := True\<rparr>\<rparr>
        in consumeAll s2)"

text \<open>The constant \<open>ModeMaster\<close> is declared in a file of the package that is not
  part of the sources at hand; it is a parameter of \<open>Destroy\<close>.\<close>

definition Destroy :: "Mode \<Rightarrow> state \<Rightarrow> state" where
  "Destroy ModeMaster s =
     (let s1 = Close s
      in if mode (ch s1) = ModeMaster
         then
           let s2 = logs (Log Debug [S ''master removing directory...'']) s1
           in case os_RemoveAll (path (ch s2)) (fs s2) of
                (Some err, fs1) \<Rightarrow>
                  logs (Logf Error ''failed to remove directory %v : %v'' [S (path (ch s2)), E err])
                    (s2\<lparr>fs := fs1\<rparr>)
              | (None, fs1) \<Rightarrow> s2\<lparr>fs := fs1\<rparr>
         else s1)"

section \<open>The process liveness check\<close>

text \<open>\<open>ps\<close> is a variable of the package holding the function that runs
  \<open>ps -o pid,start\<close>; its result at the call is the parameter \<open>ps\<close>;
  \<open>start\<close> is the parameter \<open>startTime\<close>.  The loop
  starts at index 1 of the lines, after the header.\<close>

fun find_rows :: "go_int \<Rightarrow> string \<Rightarrow> string list \<Rightarrow> bool \<times> go_error option" where
  "find_rows pid start [] = (False, None)"
| "find_rows pid start (line # proc_list) =
     (let parts = strings_Fields line
      in if length parts \<noteq> 2 then find_rows pid start proc_list
         else
           case strconv_ParseInt (parts ! 0) of
             Inl err \<Rightarrow> (False, Some err)
           | Inr p \<Rightarrow>
               if pid = p \<and> start = parts ! 1 then (True, None)
               else find_rows pid start proc_list)"

definition find_process :: "go_error + string \<Rightarrow> go_int \<Rightarrow> string \<Rightarrow> bool \<times> go_error option" where
  "find_process ps pid start =
     (case ps of
        Inl err \<Rightarrow> (False, Some err)
      | Inr output \<Rightarrow> find_rows pid start (drop 1 (strings_Split output (CHR 0x0A))))"

section \<open>Notions used in the statements\<close>

subsection \<open>The two paths of a send, and runs of sends\<close>

text \<open>\<open>staged_path\<close> and \<open>final_path\<close> are \<open>tmp_filepath\<close> and \<open>filepath\<close> of the next
  \<open>Send\<close>.  \<open>sendMany\<close> makes one \<open>Send\<close> after the other; before each, the file
  system may have changed under the hands of the peer or of the system, which the
  function paired with the payload describes.\<close>

definition staged_path :: "state \<Rightarrow> string" where
  "staged_path s =
     path_Join (tmpPath (ch s)) (sequenceID (mode (ch s)) (startTime (ch s)) (counter (ch s)))"

definition final_path :: "state \<Rightarrow> string" where
  "final_path s =
     path_Join (path (ch s)) (sequenceID (mode (ch s)) (startTime (ch s)) (counter (ch s)))"

fun sendMany ::
  "((filesystem \<Rightarrow> filesystem) \<times> string) list \<Rightarrow> state \<Rightarrow> go_error option list \<times> state" where
  "sendMany [] s = ([], s)"
| "sendMany ((env, rawJson) # calls) s =
     (case Send rawJson (s\<lparr>fs := env (fs s)\<rparr>) of
        (r, s1) \<Rightarrow> (case sendMany calls s1 of (rs, s2) \<Rightarrow> (r # rs, s2)))"

subsection \<open>The path of a channel directory\<close>


subsection \<open>The filter in the words of the specification\<close>

definition is_letter :: "char \<Rightarrow> bool" where
  "is_letter c \<longleftrightarrow> (CHR ''a'' \<le> c \<and> c \<le> CHR ''z'') \<or> (CHR ''A'' \<le> c \<and> c \<le> CHR ''Z'')"

text \<open>
  The filter as the specification words it, for comparison with \<open>isReadable\<close>: the
  name of the file has the shape role-number-number, its role segment is the text
  before the first dash, and the file resides under the \<open>tmp\<close> subdirectory of the
  channel when its path lies in the tree of \<open>tmpPath\<close>.
\<close>

definition spec_shape :: "string \<Rightarrow> bool" where
  "spec_shape name =
     (case strings_Split name (CHR ''-'') of
        [role, a, b] \<Rightarrow>
          role \<noteq> [] \<and> list_all is_letter role \<and> a \<noteq> [] \<and> list_all is_digit a
          \<and> b \<noteq> [] \<and> list_all is_digit b
      | _ \<Rightarrow> False)"

definition spec_role :: "string \<Rightarrow> string" where
  "spec_role name = hd (strings_Split name (CHR ''-''))"

definition spec_under_tmp :: "fileWatcherChannel \<Rightarrow> string \<Rightarrow> bool" where
  "spec_under_tmp c filename = below (path_Clean (tmpPath c)) (path_Clean filename)"

definition spec_filtered :: "fileWatcherChannel \<Rightarrow> string \<Rightarrow> bool" where
  "spec_filtered c filename =
     (let name = snd (path_Split filename)
      in spec_role name = mode c \<or> spec_under_tmp c filename \<or> \<not> spec_shape name)"

subsection \<open>Rows of the process table\<close>

text \<open>The rows of the table are the lines of the output after the first.  A row
  matches when it has two fields, the first parses to the queried pid and the
  second is the expected start time; it is unparsed when it has two fields and
  the first does not parse.\<close>

definition table_rows :: "string \<Rightarrow> string list" where
  "table_rows output = drop 1 (strings_Split output (CHR 0x0A))"

definition row_matches :: "go_int \<Rightarrow> string \<Rightarrow> string \<Rightarrow> bool" where
  "row_matches pid start line \<longleftrightarrow>
     length (strings_Fields line) = 2
     \<and> strconv_ParseInt (strings_Fields line ! 0) = Inr pid
     \<and> strings_Fields line ! 1 = start"

definition row_unparsed :: "string \<Rightarrow> bool" where
  "row_unparsed line \<longleftrightarrow>
     length (strings_Fields line) = 2 \<and> isl (strconv_ParseInt (strings_Fields line ! 0))"

section \<open>Concrete inputs\<close>

text \<open>
  The channel directory is \<open>/chan\<close>, its staging directory \<open>/chan/tmp\<close>.  The two
  ends are given the modes \<open>master\<close> and \<open>worker\<close>; the instance at hand was started
  on 2 January 2016, its peer the day before.
\<close>

definition no_faults :: "syscall \<Rightarrow> go_error option" where
  "no_faults call = None"

definition clear_faults :: "filesystem \<Rightarrow> filesystem" where
  "clear_faults f = f\<lparr>faults := no_faults\<rparr>"

definition demo_channel :: "Mode \<Rightarrow> fileWatcherChannel" where
  "demo_channel m =
     \<lparr>path = ''/chan'', tmpPath = ''/chan/tmp'', onMessageChan = [], mode = m,
      counter = 0, recvCounter = 0, startTime = ''20160102000000'', closed = False\<rparr>"

definition create_event :: "string \<Rightarrow> fsnotify_Event" where
  "create_event name = \<lparr>Name = name, Op = fsnotify_Create\<rparr>"

subsection \<open>Sending\<close>

text \<open>A master on an empty channel directory; the same where every rename fails;
  and the same with the counter at 999.\<close>

definition chan_fs :: filesystem where
  "chan_fs = \<lparr>nodes = [(''/'', Dir), (''/chan'', Dir), (''/chan/tmp'', Dir)], faults = no_faults\<rparr>"

definition master_state :: state where
  "master_state = \<lparr>ch = demo_channel ''master'', fs = chan_fs, logged = []\<rparr>"

definition rename_fails :: "syscall \<Rightarrow> go_error option" where
  "rename_fails call =
     (case call of SysRename a b \<Rightarrow> Some (PathError ''rename'' a) | _ \<Rightarrow> None)"

definition blocked_state :: state where
  "blocked_state = master_state\<lparr>fs := chan_fs\<lparr>faults := rename_fails\<rparr>\<rparr>"

definition send_calls :: "((filesystem \<Rightarrow> filesystem) \<times> string) list" where
  "send_calls = [(id, ''A''), (id, ''B''), (clear_faults, ''B''), (id, ''C'')]"

definition late_master_state :: state where
  "late_master_state = master_state\<lparr>ch := (demo_channel ''master'')\<lparr>counter := 999\<rparr>\<rparr>"

definition two_sends :: "((filesystem \<Rightarrow> filesystem) \<times> string) list" where
  "two_sends = [(id, ''first''), (id, ''second'')]"

definition worker_on :: "filesystem \<Rightarrow> state" where
  "worker_on f = \<lparr>ch = demo_channel ''worker'', fs = f, logged = []\<rparr>"

text \<open>A worker whose channel directory the master has already removed, and a file
  system in which that directory is empty.\<close>

definition gone_state :: state where
  "gone_state =
     \<lparr>ch = demo_channel ''worker'',
      fs = \<lparr>nodes = [(''/'', Dir)], faults = no_faults\<rparr>,
      logged = []\<rparr>"

definition empty_chan_fs :: filesystem where
  "empty_chan_fs = \<lparr>nodes = [(''/'', Dir), (''/chan'', Dir)], faults = no_faults\<rparr>"

subsection \<open>Receiving\<close>


text \<open>A message of the worker that the worker still holds open: reading it fails.\<close>

definition locked_file :: string where
  "locked_file = ''/chan/worker-20160101000000-000''"

definition locked_state :: state where
  "locked_state =
     \<lparr>ch = demo_channel ''master'',
      fs = \<lparr>nodes = [(''/'', Dir), (''/chan'', Dir), (''/chan/tmp'', Dir),
                      (locked_file, File ''A'')],
            faults = (\<lambda>call. if call = SysReadFile locked_file
                               then Some (PathError ''open'' locked_file) else None)\<rparr>,
      logged = []\<rparr>"

text \<open>A master that has read six messages of a worker; the worker has been
  started again and has sent the first message of its new instance.\<close>

definition restarted_file :: string where
  "restarted_file = ''/chan/worker-20160103000000-000''"

definition restarted_state :: state where
  "restarted_state =
     \<lparr>ch = (demo_channel ''master'')\<lparr>recvCounter := 6\<rparr>,
      fs = \<lparr>nodes = [(''/'', Dir), (''/chan'', Dir), (''/chan/tmp'', Dir),
                      (restarted_file, File ''hello'')],
            faults = no_faults\<rparr>,
      logged = []\<rparr>"

text \<open>The same message in a directory from which the master may not remove files.\<close>

definition sticky_state :: state where
  "sticky_state =
     restarted_state
       \<lparr>fs := (fs restarted_state)
          \<lparr>faults := (\<lambda>call. if call = SysRemove restarted_file
                                then Some (PathError ''remove'' restarted_file) else None)\<rparr>\<rparr>"

text \<open>A master whose channel directory lies under \<open>/tmp\<close>.\<close>

definition tmp_rooted_channel :: fileWatcherChannel where
  "tmp_rooted_channel =
     \<lparr>path = ''/tmp/chan'', tmpPath = ''/tmp/chan/tmp'', onMessageChan = [], mode = ''master'',
      counter = 0, recvCounter = 0, startTime = ''20160102000000'', closed = False\<rparr>"

definition tmp_rooted_file :: string where
  "tmp_rooted_file = ''/tmp/chan/worker-20160101000000-000''"

definition tmp_rooted_state :: state where
  "tmp_rooted_state =
     \<lparr>ch = tmp_rooted_channel,
      fs = \<lparr>nodes = [(''/'', Dir), (''/tmp'', Dir), (''/tmp/chan'', Dir), (''/tmp/chan/tmp'', Dir),
                      (tmp_rooted_file, File ''A'')],
            faults = no_faults\<rparr>,
      logged = []\<rparr>"

subsection \<open>Tearing down\<close>

text \<open>A channel directory with a message of each end, a staged file, and a
  directory of another channel beside it.\<close>

definition shared_fs :: filesystem where
  "shared_fs =
     \<lparr>nodes = [(''/'', Dir), (''/chan'', Dir), (''/chan/tmp'', Dir),
               (''/chan/worker-20160101000000-000'', File ''A''),
               (''/chan/master-20160102000000-000'', File ''B''),
               (''/chan/tmp/master-20160102000000-001'', File ''C''),
               (''/channel2'', Dir)],
      faults = no_faults\<rparr>"

definition shared_state :: "Mode \<Rightarrow> state" where
  "shared_state m = \<lparr>ch = demo_channel m, fs = shared_fs, logged = []\<rparr>"



definition dotted_state :: state where
  "dotted_state = (shared_state ''master'')\<lparr>ch := (demo_channel ''master'')\<lparr>path := ''/chan/.''\<rparr>\<rparr>"

subsection \<open>The process table\<close>

text \<open>The output of \<open>ps\<close> on a quiet day, and with a warning that \<open>ps\<close> printed to its
  standard error in front of the table (the output is the combined one).\<close>

definition text_lines :: "string list \<Rightarrow> string" where
  "text_lines ls = concat (map (\<lambda>l. l @ [CHR 0x0A]) ls)"

definition ps_output :: string where
  "ps_output =
     text_lines [''  PID  STARTED'', ''    1   Oct 28'', ''   42 10:00:00'', ''  977 10:02:13'']"

definition ps_output_warned :: string where
  "ps_output_warned = text_lines [''ps: warning'', ''  PID  STARTED'', ''   42 10:00:00'']"

section \<open>Facts about the library functions and the file system\<close>

text \<open>\<open>strings.Split\<close> never returns an empty list, so the last part that
  \<open>parseSequenceCounter\<close> takes is there.\<close>

lemma split_scan_nonempty: "split_scan s sep cur \<noteq> []"
  by (induction s arbitrary: cur) auto

lemma strings_Split_nonempty: "strings_Split s sep \<noteq> []"
  by (simp add: strings_Split_def split_scan_nonempty)

lemma os_Rename_failure: "fst (os_Rename a b f) = Some e \<Longrightarrow> snd (os_Rename a b f) = f"
  by (auto simp: os_Rename_def split: option.splits node.splits if_splits)

lemma ioutil_WriteFile_lookup:
  "fst (ioutil_WriteFile name data f) = None \<Longrightarrow>
     lookup (snd (ioutil_WriteFile name data f)) name = Some (File data)"
  by (auto simp: ioutil_WriteFile_def lookup_def update_conv' split: option.splits if_splits)

lemma os_Rename_moves:
  "fst (os_Rename a b f) = None \<Longrightarrow> path_Clean a \<noteq> path_Clean b \<Longrightarrow>
     lookup (snd (os_Rename a b f)) a = None"
  by (auto simp: os_Rename_def lookup_def update_conv' delete_conv' split: option.splits node.splits if_splits)

lemma os_Rename_target:
  "fst (os_Rename a b f) = None \<Longrightarrow> lookup f a = Some (File d) \<Longrightarrow>
     lookup (snd (os_Rename a b f)) b = Some (File d)"
  by (auto simp: os_Rename_def lookup_def update_conv' split: option.splits node.splits if_splits)

lemma os_Remove_faults: "faults (snd (os_Remove p f)) = faults f"
  by (simp add: os_Remove_def split: option.splits)

lemma os_Remove_removes:
  "fst (os_Remove p f) = None \<Longrightarrow> lookup (snd (os_Remove p f)) p = None"
  by (auto simp: os_Remove_def lookup_def delete_conv' split: option.splits if_splits)


section \<open>What the operations leave alone\<close>

lemma Send_frame:
  "mode (ch (snd (Send rawJson s))) = mode (ch s)"
  "startTime (ch (snd (Send rawJson s))) = startTime (ch s)"
  "tmpPath (ch (snd (Send rawJson s))) = tmpPath (ch s)"
  "path (ch (snd (Send rawJson s))) = path (ch s)"
  "recvCounter (ch (snd (Send rawJson s))) = recvCounter (ch s)"
  "onMessageChan (ch (snd (Send rawJson s))) = onMessageChan (ch s)"
  by (auto simp: Send_def logs_def Let_def split: prod.splits option.splits)

lemma consume_frame:
  "mode (ch (consume p s)) = mode (ch s)"
  "path (ch (consume p s)) = path (ch s)"
  "tmpPath (ch (consume p s)) = tmpPath (ch s)"
  "counter (ch (consume p s)) = counter (ch s)"
  "startTime (ch (consume p s)) = startTime (ch s)"
  "closed (ch (consume p s)) = closed (ch s)"
  "faults (fs (consume p s)) = faults (fs s)"
  by (simp_all add: consume_def logs_def Let_def os_Remove_faults split: sum.splits)

lemma isReadable_mode: "mode c = mode c' \<Longrightarrow> isReadable c = isReadable c'"
  by (rule ext) (simp add: isReadable_def)




section \<open>The watch loop and reconciliation\<close>







section \<open>The order of sequence names\<close>

lemma append_less_cancel: "(xs @ ys < xs @ zs) = (ys < (zs :: string))"
  by (induction xs) simp_all

text \<open>
  Claim C2 at counters 999 and 1000.  The verb \<open>%03d\<close> pads to three digits and
  prints a larger counter in full, so for every mode and start time the name with
  counter 1000 sorts before the name with counter 999.  A master that sends
  \<open>first\<close> with counter 999 and \<open>second\<close> with counter 1000 leaves two files that
  \<open>ReadDir\<close> lists in the opposite order, and the worker's reconciliation pass
  delivers \<open>second\<close> before \<open>first\<close>.
\<close>

theorem sequenceID_order_breaks_at_1000:
  "sint (999 :: go_int) < sint (1000 :: go_int)
   \<and> sequenceID m t 1000 < sequenceID m t 999
   \<and> fst (sendMany two_sends late_master_state) = [None, None]
   \<and> ioutil_ReadDir ''/chan'' (fs (snd (sendMany two_sends late_master_state))) =
       Inr [''master-20160102000000-1000'', ''master-20160102000000-999'', ''tmp'']
   \<and> onMessageChan (ch (consumeAll (worker_on (fs (snd (sendMany two_sends late_master_state))))))
       = [''second'', ''first'']"
proof -
  have f: "fmt_03d 1000 = ''1000''" "fmt_03d 999 = ''999''"
    by code_simp+
  have "''1000'' < ''999''"
    by simp
  then have 1: "sequenceID m t 1000 < sequenceID m t 999"
    by (simp only: sequenceID_def f append_less_cancel)
  have 0: "sint (999 :: go_int) < sint (1000 :: go_int)"
    by simp
  have 2: "fst (sendMany two_sends late_master_state) = [None, None]"
    by code_simp
  have 3: "ioutil_ReadDir ''/chan'' (fs (snd (sendMany two_sends late_master_state))) =
       Inr [''master-20160102000000-1000'', ''master-20160102000000-999'', ''tmp'']"
    by code_simp
  have 4: "onMessageChan (ch (consumeAll (worker_on (fs (snd (sendMany two_sends late_master_state))))))
       = [''second'', ''first'']"
    by code_simp
  from 0 1 2 3 4 show ?thesis by blast
qed

lemma digit_char_code: "d < 10 \<Longrightarrow> of_char (digit_char d) = (48 + d :: nat)"
proof -
  assume "d < 10"
  then consider "d = 0" | "d = 1" | "d = 2" | "d = 3" | "d = 4" | "d = 5" | "d = 6"
    | "d = 7" | "d = 8" | "d = 9"
    by force
  then show ?thesis
    by cases (simp_all add: digit_char_def)
qed

lemma digit_char_less:
  "a < 10 \<Longrightarrow> b < 10 \<Longrightarrow> (digit_char a < digit_char b) = (a < b)"
  by (simp add: less_char_def digit_char_code)

lemma digit_char_eq:
  "a < 10 \<Longrightarrow> b < 10 \<Longrightarrow> (digit_char a = digit_char b) = (a = b)"
  by (metis digit_char_code add_left_cancel)

lemma three_digits:
  assumes "k < 1000"
  shows "zero_pad 3 (decimal k) =
           [digit_char (k div 100), digit_char (k div 10 mod 10), digit_char (k mod 10)]"
proof -
  have z: "digit_char 0 = CHR ''0''"
    by (simp add: digit_char_def)
  consider (one) "k < 10" | (two) "10 \<le> k" "k < 100" | (three) "100 \<le> k"
    by linarith
  then show ?thesis
  proof cases
    case one
    then have "decimal k = [digit_char k]"
      by (simp add: decimal.simps)
    with one show ?thesis
      by (simp add: zero_pad_def z numeral_3_eq_3)
  next
    case two
    then have "k div 10 < 10" by simp
    then have "decimal (k div 10) = [digit_char (k div 10)]"
      by (simp add: decimal.simps)
    with two have "decimal k = [digit_char (k div 10), digit_char (k mod 10)]"
      by (subst decimal.simps) simp
    with two show ?thesis
      by (simp add: zero_pad_def z)
  next
    case three
    with assms have t: "10 \<le> k div 10" "k div 10 < 100" by simp_all
    then have "k div 10 div 10 < 10" by simp
    then have "decimal (k div 10 div 10) = [digit_char (k div 10 div 10)]"
      by (simp add: decimal.simps)
    with t have "decimal (k div 10) = [digit_char (k div 10 div 10), digit_char (k div 10 mod 10)]"
      by (subst decimal.simps) simp
    with three have "decimal k =
        [digit_char (k div 10 div 10), digit_char (k div 10 mod 10), digit_char (k mod 10)]"
      by (subst decimal.simps) simp
    moreover have "k div 10 div 10 = k div 100"
      by (simp add: div_mult2_eq [symmetric])
    ultimately show ?thesis
      by (simp add: zero_pad_def)
  qed
qed

lemma div_mod_10_less:
  "(x :: nat) < y \<Longrightarrow> x div 10 < y div 10 \<or> (x div 10 = y div 10 \<and> x mod 10 < y mod 10)"
  by (metis div_le_mono div_mult_mod_eq le_neq_implies_less less_imp_le nat_add_left_cancel_less)

lemma three_digits_less:
  assumes "j < k" "k < (1000 :: nat)"
  shows "zero_pad 3 (decimal j) < zero_pad 3 (decimal k)"
proof -
  from assms have j: "j < 1000" by simp
  have b: "j div 100 < 10" "k div 100 < 10" "j div 10 mod 10 < 10" "k div 10 mod 10 < 10"
    "j mod 10 < 10" "k mod 10 < 10"
    using assms by simp_all
  have h: "j div 10 div 10 = j div 100" "k div 10 div 10 = k div 100"
    by (simp_all add: div_mult2_eq [symmetric])
  have "j div 100 < k div 100
        \<or> (j div 100 = k div 100
            \<and> (j div 10 mod 10 < k div 10 mod 10
                \<or> (j div 10 mod 10 = k div 10 mod 10 \<and> j mod 10 < k mod 10)))"
  proof (cases "j div 10 < k div 10")
    case True
    then show ?thesis
      using div_mod_10_less [of "j div 10" "k div 10"] h by auto
  next
    case False
    with assms(1) have e: "j div 10 = k div 10" "j mod 10 < k mod 10"
      using div_mod_10_less [of j k] by auto
    then have "j div 100 = k div 100"
      using h by simp
    with e show ?thesis by simp
  qed
  then show ?thesis
    unfolding three_digits [OF j] three_digits [OF assms(2)]
    by (simp add: digit_char_less [OF b(1) b(2)] digit_char_eq [OF b(1) b(2)]
        digit_char_less [OF b(3) b(4)] digit_char_eq [OF b(3) b(4)]
        digit_char_less [OF b(5) b(6)])
qed

text \<open>
  Where the order of claim C2 does hold: while both counters are below 1000, so
  that \<open>%03d\<close> prints exactly three digits, the name with the smaller counter
  sorts first.
\<close>

lemma sequenceID_order_below_1000:
  assumes "0 \<le> sint m" "sint m < sint n" "sint n < 1000"
  shows "sequenceID md t m < sequenceID md t n"
proof -
  from assms have "nat (sint m) < nat (sint n)" "nat (sint n) < 1000"
    by simp_all
  then have "zero_pad 3 (decimal (nat (sint m))) < zero_pad 3 (decimal (nat (sint n)))"
    by (rule three_digits_less)
  with assms have "fmt_03d m < fmt_03d n"
    by (simp add: fmt_03d_def)
  then show ?thesis
    by (simp only: sequenceID_def append_less_cancel)
qed

lemma sequenceID_order_below_1000_witness:
  "(0 :: int) \<le> sint (7 :: go_int) \<and> sint (7 :: go_int) < sint (12 :: go_int)
   \<and> sint (12 :: go_int) < 1000
   \<and> sequenceID ''master'' ''20160102000000'' 7 < sequenceID ''master'' ''20160102000000'' 12"
proof -
  have h: "(0 :: int) \<le> sint (7 :: go_int)" "sint (7 :: go_int) < sint (12 :: go_int)"
    "sint (12 :: go_int) < 1000"
    by simp_all
  from sequenceID_order_below_1000 [OF h] h show ?thesis
    by blast
qed

section \<open>Which files are read\<close>

lemma strings_Contains_iff: "strings_Contains s sub \<longleftrightarrow> (\<exists>u v. s = u @ sub @ v)"
proof (induction s)
  case Nil
  then show ?case by auto
next
  case (Cons c cs)
  have pre: "take (length sub) (c # cs) = sub \<longleftrightarrow> (\<exists>v. c # cs = sub @ v)"
    by (metis append_eq_conv_conj)
  have "(\<exists>u v. c # cs = u @ sub @ v) \<longleftrightarrow> (\<exists>v. c # cs = sub @ v) \<or> (\<exists>u v. cs = u @ sub @ v)"
  proof
    assume "\<exists>u v. c # cs = u @ sub @ v"
    then obtain u v where uv: "c # cs = u @ sub @ v" by blast
    show "(\<exists>v. c # cs = sub @ v) \<or> (\<exists>u v. cs = u @ sub @ v)"
    proof (cases u)
      case Nil
      with uv show ?thesis by auto
    next
      case (Cons x u')
      with uv have "cs = u' @ sub @ v" by simp
      then show ?thesis by blast
    qed
  next
    assume "(\<exists>v. c # cs = sub @ v) \<or> (\<exists>u v. cs = u @ sub @ v)"
    then show "\<exists>u v. c # cs = u @ sub @ v"
    proof
      assume "\<exists>v. c # cs = sub @ v"
      then obtain v where "c # cs = [] @ sub @ v" by auto
      then show ?thesis by blast
    next
      assume "\<exists>u v. cs = u @ sub @ v"
      then obtain u v where "cs = u @ sub @ v" by blast
      then have "c # cs = (c # u) @ sub @ v" by simp
      then show ?thesis by blast
    qed
  qed
  with pre Cons.IH show ?case by simp
qed

lemma match_Once:
  "match_here (Once a # r) s \<longleftrightarrow> (\<exists>c rest. s = c # rest \<and> atom_matches a c \<and> match_here r rest)"
  by (cases s) auto

lemma match_Plus:
  "match_here (Plus a # r) s \<longleftrightarrow>
     (\<exists>xs rest. xs \<noteq> [] \<and> list_all (atom_matches a) xs \<and> s = xs @ rest \<and> match_here r rest)"
proof (induction s)
  case Nil
  then show ?case by simp
next
  case (Cons c cs)
  show ?case
  proof
    assume m: "match_here (Plus a # r) (c # cs)"
    then have ac: "atom_matches a c" by (simp split: if_splits)
    from m have "match_here r cs \<or> match_here (Plus a # r) cs" by (simp split: if_splits)
    then show "\<exists>xs rest. xs \<noteq> [] \<and> list_all (atom_matches a) xs \<and> c # cs = xs @ rest \<and> match_here r rest"
    proof
      assume "match_here r cs"
      with ac have "[c] \<noteq> [] \<and> list_all (atom_matches a) [c] \<and> c # cs = [c] @ cs \<and> match_here r cs"
        by simp
      then show ?thesis by blast
    next
      assume "match_here (Plus a # r) cs"
      with Cons.IH obtain xs rest where
        x: "xs \<noteq> []" "list_all (atom_matches a) xs" "cs = xs @ rest" "match_here r rest"
        by blast
      with ac have "c # xs \<noteq> [] \<and> list_all (atom_matches a) (c # xs) \<and> c # cs = (c # xs) @ rest
          \<and> match_here r rest"
        by simp
      then show ?thesis by blast
    qed
  next
    assume "\<exists>xs rest. xs \<noteq> [] \<and> list_all (atom_matches a) xs \<and> c # cs = xs @ rest \<and> match_here r rest"
    then obtain xs rest where
      x: "xs \<noteq> []" "list_all (atom_matches a) xs" "c # cs = xs @ rest" "match_here r rest"
      by blast
    from x(1) obtain y ys where xs: "xs = y # ys" by (cases xs) auto
    with x have yc: "y = c" "cs = ys @ rest" "atom_matches a c" "list_all (atom_matches a) ys"
      by auto
    show "match_here (Plus a # r) (c # cs)"
    proof (cases "ys = []")
      case True
      with yc x(4) show ?thesis by simp
    next
      case False
      with yc x(4) have "match_here (Plus a # r) cs"
        using Cons.IH by blast
      with yc show ?thesis by simp
    qed
  qed
qed

lemma regexp_MatchString_iff:
  "regexp_MatchString re s \<longleftrightarrow> (\<exists>pre rest. s = pre @ rest \<and> match_here re rest)"
proof (induction s)
  case Nil
  then show ?case by simp
next
  case (Cons c cs)
  have "(\<exists>pre rest. c # cs = pre @ rest \<and> match_here re rest) \<longleftrightarrow>
        match_here re (c # cs) \<or> (\<exists>pre rest. cs = pre @ rest \<and> match_here re rest)"
  proof
    assume "\<exists>pre rest. c # cs = pre @ rest \<and> match_here re rest"
    then obtain pre rest where pr: "c # cs = pre @ rest" "match_here re rest" by blast
    show "match_here re (c # cs) \<or> (\<exists>pre rest. cs = pre @ rest \<and> match_here re rest)"
    proof (cases pre)
      case Nil
      with pr show ?thesis by simp
    next
      case (Cons x pre')
      with pr have "cs = pre' @ rest" by simp
      with pr(2) show ?thesis by blast
    qed
  next
    assume "match_here re (c # cs) \<or> (\<exists>pre rest. cs = pre @ rest \<and> match_here re rest)"
    then show "\<exists>pre rest. c # cs = pre @ rest \<and> match_here re rest"
    proof
      assume "match_here re (c # cs)"
      then have "c # cs = [] @ (c # cs) \<and> match_here re (c # cs)" by simp
      then show ?thesis by blast
    next
      assume "\<exists>pre rest. cs = pre @ rest \<and> match_here re rest"
      then obtain pre rest where "cs = pre @ rest" "match_here re rest" by blast
      then have "c # cs = (c # pre) @ rest \<and> match_here re rest" by simp
      then show ?thesis by blast
    qed
  qed
  with Cons.IH show ?case by simp
qed

lemma letter_class_matches: "atom_matches letter_class = is_letter"
  by (rule ext) (auto simp: letter_class_def is_letter_def)

lemma digit_class_matches: "atom_matches digit_class = is_digit"
  by (rule ext) (auto simp: digit_class_def is_digit_def)

lemma sequence_pattern_here:
  "match_here sequence_pattern s \<longleftrightarrow>
     (\<exists>role a b post. s = role @ ''-'' @ a @ ''-'' @ b @ post
        \<and> role \<noteq> [] \<and> list_all is_letter role \<and> a \<noteq> [] \<and> list_all is_digit a
        \<and> b \<noteq> [] \<and> list_all is_digit b)"
proof
  let ?dash = "Once (Lit (CHR ''-''))"
  assume "match_here sequence_pattern s"
  then have "match_here (Plus letter_class # [?dash, Plus digit_class, ?dash, Plus digit_class]) s"
    by (simp only: sequence_pattern_def)
  then obtain role r1 where 1: "role \<noteq> []" "list_all is_letter role" "s = role @ r1"
    "match_here (?dash # [Plus digit_class, ?dash, Plus digit_class]) r1"
    unfolding match_Plus letter_class_matches by blast
  from 1(4) obtain r2 where 2: "r1 = CHR ''-'' # r2"
    "match_here (Plus digit_class # [?dash, Plus digit_class]) r2"
    unfolding match_Once by auto
  from 2(2) obtain a r3 where 3: "a \<noteq> []" "list_all is_digit a" "r2 = a @ r3"
    "match_here (?dash # [Plus digit_class]) r3"
    unfolding match_Plus digit_class_matches by blast
  from 3(4) obtain r4 where 4: "r3 = CHR ''-'' # r4" "match_here (Plus digit_class # []) r4"
    unfolding match_Once by auto
  from 4(2) obtain b post where 5: "b \<noteq> []" "list_all is_digit b" "r4 = b @ post"
    unfolding match_Plus digit_class_matches by blast
  from 1 2 3 4 5 have "s = role @ ''-'' @ a @ ''-'' @ b @ post
        \<and> role \<noteq> [] \<and> list_all is_letter role \<and> a \<noteq> [] \<and> list_all is_digit a
        \<and> b \<noteq> [] \<and> list_all is_digit b"
    by simp
  then show "\<exists>role a b post. s = role @ ''-'' @ a @ ''-'' @ b @ post
        \<and> role \<noteq> [] \<and> list_all is_letter role \<and> a \<noteq> [] \<and> list_all is_digit a
        \<and> b \<noteq> [] \<and> list_all is_digit b"
    by blast
next
  let ?dash = "Once (Lit (CHR ''-''))"
  assume "\<exists>role a b post. s = role @ ''-'' @ a @ ''-'' @ b @ post
        \<and> role \<noteq> [] \<and> list_all is_letter role \<and> a \<noteq> [] \<and> list_all is_digit a
        \<and> b \<noteq> [] \<and> list_all is_digit b"
  then obtain role a b post where s: "s = role @ ''-'' @ a @ ''-'' @ b @ post"
    and r: "role \<noteq> []" "list_all is_letter role"
    and a: "a \<noteq> []" "list_all is_digit a"
    and b: "b \<noteq> []" "list_all is_digit b"
    by blast
  have 5: "match_here (Plus digit_class # []) (b @ post)"
    unfolding match_Plus digit_class_matches using b by auto
  then have 4: "match_here (?dash # [Plus digit_class]) (CHR ''-'' # b @ post)"
    by simp
  have 3: "match_here (Plus digit_class # [?dash, Plus digit_class]) (a @ CHR ''-'' # b @ post)"
    unfolding match_Plus [of digit_class "[?dash, Plus digit_class]"] digit_class_matches
    using a 4 by blast
  then have 2: "match_here (?dash # [Plus digit_class, ?dash, Plus digit_class])
                  (CHR ''-'' # a @ CHR ''-'' # b @ post)"
    by simp
  have "match_here (Plus letter_class # [?dash, Plus digit_class, ?dash, Plus digit_class])
          (role @ CHR ''-'' # a @ CHR ''-'' # b @ post)"
    unfolding match_Plus [of letter_class "[?dash, Plus digit_class, ?dash, Plus digit_class]"]
      letter_class_matches
    using r 2 by blast
  then show "match_here sequence_pattern s"
    by (simp add: sequence_pattern_def s)
qed

text \<open>
  What \<open>isReadable\<close> computes on the string it is given: it accepts exactly when
  some substring has the shape letters, dash, digits, dash, digits, and the string
  contains neither the mode of the instance nor \<open>tmp\<close> anywhere.
\<close>

lemma isReadable_by_substrings:
  "isReadable c filename \<longleftrightarrow>
     (\<exists>pre role a b post. filename = pre @ role @ ''-'' @ a @ ''-'' @ b @ post
        \<and> role \<noteq> [] \<and> list_all is_letter role \<and> a \<noteq> [] \<and> list_all is_digit a
        \<and> b \<noteq> [] \<and> list_all is_digit b)
     \<and> \<not> (\<exists>u v. filename = u @ mode c @ v)
     \<and> \<not> (\<exists>u v. filename = u @ ''tmp'' @ v)"
proof -
  have m: "regexp_MatchString sequence_pattern filename \<longleftrightarrow>
     (\<exists>pre role a b post. filename = pre @ role @ ''-'' @ a @ ''-'' @ b @ post
        \<and> role \<noteq> [] \<and> list_all is_letter role \<and> a \<noteq> [] \<and> list_all is_digit a
        \<and> b \<noteq> [] \<and> list_all is_digit b)"
    unfolding regexp_MatchString_iff sequence_pattern_here by blast
  have r: "isReadable c filename \<longleftrightarrow>
      regexp_MatchString sequence_pattern filename
      \<and> \<not> strings_Contains filename (mode c) \<and> \<not> strings_Contains filename ''tmp''"
    by (simp add: isReadable_def)
  show ?thesis
    by (simp only: r m strings_Contains_iff)
qed

text \<open>
  Claim C3 on a channel directory under \<open>/tmp\<close>.  The watch loop hands \<open>isReadable\<close>
  the path of the event, directory included, and the reconciliation pass hands it
  the bare name.  With the channel directory \<open>/tmp/chan\<close>, the worker's message
  \<open>worker-20160101000000-000\<close> lies in the channel directory itself, has the shape
  role-number-number and another role than the master's; the claim, and the
  comment at \<open>consumeAll\<close> (the filter drops the instance's own messages and those
  in \<open>tmp\<close>), make it qualify.  The reconciliation pass accepts and delivers it.
  The watch loop rejects its event, because the directory part of the path
  contains \<open>tmp\<close>: although the counter is the expected one, nothing is delivered
  and the file stays.
\<close>

theorem isReadable_event_path_under_tmp_root:
  "\<not> spec_filtered tmp_rooted_channel tmp_rooted_file
   \<and> \<not> isReadable tmp_rooted_channel tmp_rooted_file
   \<and> isReadable tmp_rooted_channel ''worker-20160101000000-000''
   \<and> parseSequenceCounter tmp_rooted_file = recvCounter (ch tmp_rooted_state)
   \<and> onMessageChan (ch (watchEvent (create_event tmp_rooted_file) tmp_rooted_state)) = []
   \<and> lookup (fs (watchEvent (create_event tmp_rooted_file) tmp_rooted_state)) tmp_rooted_file
       = Some (File ''A'')
   \<and> onMessageChan (ch (consumeAll tmp_rooted_state)) = [''A'']
   \<and> lookup (fs (consumeAll tmp_rooted_state)) tmp_rooted_file = None"
  by code_simp

section \<open>The receive cursor\<close>

lemma consume_success:
  assumes "ioutil_ReadFile filepath (fs s) = Inr buf"
  shows "recvCounter (ch (consume filepath s)) = parseSequenceCounter filepath + 1"
    and "onMessageChan (ch (consume filepath s)) = onMessageChan (ch s) @ [buf]"
    and "fs (consume filepath s) = snd (os_Remove filepath (fs s))"
  using assms by (simp_all add: consume_def logs_def Let_def)

lemma consume_failure_ch:
  assumes "ioutil_ReadFile filepath (fs s) = Inl err"
  shows "ch (consume filepath s) = ch s"
  using assms by (simp add: consume_def logs_def Let_def)

lemma consumeEach_recvCounter:
  "recvCounter (ch (consumeEach infos s)) \<noteq> recvCounter (ch s) \<Longrightarrow>
     \<exists>name \<in> set infos. isReadable (ch s) name
        \<and> recvCounter (ch (consumeEach infos s)) =
            parseSequenceCounter (path_Join (path (ch s)) name) + 1"
proof (induction infos arbitrary: s)
  case Nil
  then show ?case by simp
next
  case (Cons name infos)
  let ?p = "path_Join (path (ch s)) name"
  let ?s1 = "if isReadable (ch s) name then consume ?p s else s"
  have p: "path (ch ?s1) = path (ch s)"
    by (simp add: consume_frame)
  have "mode (ch ?s1) = mode (ch s)"
    by (simp add: consume_frame)
  then have r: "isReadable (ch ?s1) = isReadable (ch s)"
    by (rule isReadable_mode)
  have e: "consumeEach (name # infos) s = consumeEach infos ?s1"
    by simp
  show ?case
  proof (cases "recvCounter (ch (consumeEach infos ?s1)) = recvCounter (ch ?s1)")
    case False
    then obtain n where "n \<in> set infos" "isReadable (ch ?s1) n"
      "recvCounter (ch (consumeEach infos ?s1)) = parseSequenceCounter (path_Join (path (ch ?s1)) n) + 1"
      using Cons.IH [of ?s1] by blast
    then show ?thesis
      unfolding e p r by auto
  next
    case True
    with Cons.prems e have ne: "recvCounter (ch ?s1) \<noteq> recvCounter (ch s)"
      by simp
    then have rd: "isReadable (ch s) name"
      by (auto split: if_splits)
    with ne have c: "recvCounter (ch (consume ?p s)) \<noteq> recvCounter (ch s)"
      by simp
    have "recvCounter (ch (consume ?p s)) = parseSequenceCounter ?p + 1"
    proof (cases "ioutil_ReadFile ?p (fs s)")
      case (Inl err)
      with c show ?thesis using consume_failure_ch [of ?p s err] by simp
    next
      case (Inr buf)
      then show ?thesis by (rule consume_success)
    qed
    with True rd e show ?thesis
      by auto
  qed
qed

text \<open>
  Claim C4 as it is stated fails: \<open>recvCounter\<close> can go down.  A master that
  expects message 6 finds the first message of a worker that has been started
  again; the reconciliation pass delivers it and sets \<open>recvCounter\<close> to 1.  And when
  the removal of a file that has been read fails, the error of \<open>os.Remove\<close> is
  dropped: \<open>recvCounter\<close> is set although the file is still there.
\<close>

theorem recvCounter_not_monotone:
  "recvCounter (ch restarted_state) = 6
   \<and> recvCounter (ch (consumeAll restarted_state)) = 1
   \<and> sint (recvCounter (ch (consumeAll restarted_state))) < sint (recvCounter (ch restarted_state))
   \<and> onMessageChan (ch (consumeAll restarted_state)) = [''hello'']
   \<and> recvCounter (ch (consume restarted_file sticky_state)) = 1
   \<and> lookup (fs (consume restarted_file sticky_state)) restarted_file = Some (File ''hello'')"
  by code_simp

text \<open>
  Claim C4, amended.  \<open>recvCounter\<close> changes only in \<open>consume\<close>, and only when the
  read of the file has succeeded: the payload is then pushed, \<open>os.Remove\<close> is
  applied to the file, and \<open>recvCounter\<close> becomes the parsed counter of the file
  plus one, whatever its value was.  When the removal succeeds the file is gone.
  \<open>Send\<close> leaves \<open>recvCounter\<close> alone, and a reconciliation pass that changes it
  sets it to the parsed counter plus one of a name of the listing that
  \<open>isReadable\<close> accepts.
\<close>

theorem recvCounter_set_by_consume:
  "(recvCounter (ch (consume filepath s)) \<noteq> recvCounter (ch s) \<longrightarrow>
      (\<exists>buf. ioutil_ReadFile filepath (fs s) = Inr buf
         \<and> onMessageChan (ch (consume filepath s)) = onMessageChan (ch s) @ [buf])
      \<and> fs (consume filepath s) = snd (os_Remove filepath (fs s))
      \<and> recvCounter (ch (consume filepath s)) = parseSequenceCounter filepath + 1)
   \<and> (ioutil_ReadFile filepath (fs s) = Inr buf \<longrightarrow>
        recvCounter (ch (consume filepath s)) = parseSequenceCounter filepath + 1
        \<and> (fst (os_Remove filepath (fs s)) = None \<longrightarrow>
             lookup (fs (consume filepath s)) filepath = None))
   \<and> recvCounter (ch (snd (Send rawJson s))) = recvCounter (ch s)
   \<and> (recvCounter (ch (consumeAll s)) \<noteq> recvCounter (ch s) \<longrightarrow>
        (\<exists>names. ioutil_ReadDir (path (ch s)) (fs s) = Inr names
           \<and> (\<exists>name \<in> set names. isReadable (ch s) name
                \<and> recvCounter (ch (consumeAll s)) =
                    parseSequenceCounter (path_Join (path (ch s)) name) + 1)))"
proof (intro conjI impI)
  assume c: "recvCounter (ch (consume filepath s)) \<noteq> recvCounter (ch s)"
  then obtain b where b: "ioutil_ReadFile filepath (fs s) = Inr b"
    using consume_failure_ch [of filepath s] by (cases "ioutil_ReadFile filepath (fs s)") auto
  then show "\<exists>buf. ioutil_ReadFile filepath (fs s) = Inr buf
         \<and> onMessageChan (ch (consume filepath s)) = onMessageChan (ch s) @ [buf]"
    using consume_success(2) by blast
  from b show "fs (consume filepath s) = snd (os_Remove filepath (fs s))"
    by (rule consume_success)
  from b show "recvCounter (ch (consume filepath s)) = parseSequenceCounter filepath + 1"
    by (rule consume_success)
next
  assume b: "ioutil_ReadFile filepath (fs s) = Inr buf"
  then show "recvCounter (ch (consume filepath s)) = parseSequenceCounter filepath + 1"
    by (rule consume_success)
  assume "fst (os_Remove filepath (fs s)) = None"
  then show "lookup (fs (consume filepath s)) filepath = None"
    using consume_success(3) [OF b] os_Remove_removes by simp
next
  show "recvCounter (ch (snd (Send rawJson s))) = recvCounter (ch s)"
    by (rule Send_frame)
next
  assume c: "recvCounter (ch (consumeAll s)) \<noteq> recvCounter (ch s)"
  let ?s1 = "logs (Log Debug [S ''consuming all the messages under: '', S (path (ch s))]) s"
  have s1: "ch ?s1 = ch s" "fs ?s1 = fs s"
    by (simp_all add: logs_def)
  show "\<exists>names. ioutil_ReadDir (path (ch s)) (fs s) = Inr names
           \<and> (\<exists>name \<in> set names. isReadable (ch s) name
                \<and> recvCounter (ch (consumeAll s)) =
                    parseSequenceCounter (path_Join (path (ch s)) name) + 1)"
  proof (cases "ioutil_ReadDir (path (ch s)) (fs s)")
    case (Inl err)
    then have "ch (consumeAll s) = ch s"
      by (simp add: consumeAll_def logs_def)
    with c show ?thesis by simp
  next
    case (Inr names)
    then have e: "consumeAll s = consumeEach names ?s1"
      by (cases names) (simp_all add: consumeAll_def Let_def logs_def)
    with c have "recvCounter (ch (consumeEach names ?s1)) \<noteq> recvCounter (ch ?s1)"
      by (simp add: s1)
    then have "\<exists>name \<in> set names. isReadable (ch ?s1) name
        \<and> recvCounter (ch (consumeEach names ?s1)) =
            parseSequenceCounter (path_Join (path (ch ?s1)) name) + 1"
      by (rule consumeEach_recvCounter)
    with Inr e show ?thesis
      by (simp add: s1)
  qed
qed

theorem recvCounter_set_by_consume_witness:
  "recvCounter (ch (consume restarted_file restarted_state)) \<noteq> recvCounter (ch restarted_state)
   \<and> ioutil_ReadFile restarted_file (fs restarted_state) = Inr ''hello''
   \<and> fst (os_Remove restarted_file (fs restarted_state)) = None
   \<and> parseSequenceCounter restarted_file = 0
   \<and> recvCounter (ch (consume restarted_file restarted_state)) = parseSequenceCounter restarted_file + 1
   \<and> onMessageChan (ch (consume restarted_file restarted_state)) = [''hello'']
   \<and> lookup (fs (consume restarted_file restarted_state)) restarted_file = None
   \<and> recvCounter (ch (consumeAll restarted_state)) \<noteq> recvCounter (ch restarted_state)
   \<and> (\<exists>names. ioutil_ReadDir (path (ch restarted_state)) (fs restarted_state) = Inr names
         \<and> (\<exists>name \<in> set names. isReadable (ch restarted_state) name
               \<and> recvCounter (ch (consumeAll restarted_state)) =
                   parseSequenceCounter (path_Join (path (ch restarted_state)) name) + 1))"
proof -
  have h1: "recvCounter (ch (consume restarted_file restarted_state)) \<noteq> recvCounter (ch restarted_state)"
    by code_simp
  have h2: "ioutil_ReadFile restarted_file (fs restarted_state) = Inr ''hello''"
    by code_simp
  have h3: "fst (os_Remove restarted_file (fs restarted_state)) = None"
    by code_simp
  have h4: "recvCounter (ch (consumeAll restarted_state)) \<noteq> recvCounter (ch restarted_state)"
    by code_simp
  have v: "parseSequenceCounter restarted_file = 0"
    "onMessageChan (ch (consume restarted_file restarted_state)) = [''hello'']"
    by code_simp+
  note t = recvCounter_set_by_consume [of restarted_file restarted_state "''hello''" "''x''"]
  from t h1 have 1: "recvCounter (ch (consume restarted_file restarted_state)) =
      parseSequenceCounter restarted_file + 1"
    by blast
  from t h2 h3 have 2: "lookup (fs (consume restarted_file restarted_state)) restarted_file = None"
    by blast
  from t h4 have 3: "\<exists>names. ioutil_ReadDir (path (ch restarted_state)) (fs restarted_state) = Inr names
         \<and> (\<exists>name \<in> set names. isReadable (ch restarted_state) name
               \<and> recvCounter (ch (consumeAll restarted_state)) =
                   parseSequenceCounter (path_Join (path (ch restarted_state)) name) + 1)"
    by blast
  from h1 h2 h3 h4 v 1 2 3 show ?thesis
    by blast
qed

section \<open>Sending\<close>

lemma Send_error_counter:
  "fst (Send rawJson s) \<noteq> None \<Longrightarrow> counter (ch (snd (Send rawJson s))) = counter (ch s)"
  by (auto simp: Send_def logs_def Let_def split: prod.splits option.splits if_splits)

lemma Send_ok_counter:
  "fst (Send rawJson s) = None \<Longrightarrow> counter (ch (snd (Send rawJson s))) = counter (ch s) + 1"
  by (auto simp: Send_def logs_def Let_def split: prod.splits option.splits if_splits)

lemma Send_write_failure:
  "\<not> closed (ch s) \<Longrightarrow> fst (ioutil_WriteFile (staged_path s) rawJson (fs s)) = Some err
   \<Longrightarrow> fst (Send rawJson s) = Some err"
  by (auto simp: Send_def logs_def Let_def staged_path_def split: prod.splits option.splits)

lemma Send_rename_failure:
  "\<not> closed (ch s) \<Longrightarrow> fst (ioutil_WriteFile (staged_path s) rawJson (fs s)) = None
   \<Longrightarrow> fst (os_Rename (staged_path s) (final_path s)
              (snd (ioutil_WriteFile (staged_path s) rawJson (fs s)))) = Some err
   \<Longrightarrow> fst (Send rawJson s) = Some err"
  by (auto simp: Send_def logs_def Let_def staged_path_def final_path_def split: prod.splits option.splits)

lemma sendMany_counter:
  "counter (ch (snd (sendMany calls s))) =
     counter (ch s) + of_nat (length (filter (\<lambda>r. r = None) (fst (sendMany calls s))))"
proof (induction calls arbitrary: s)
  case Nil
  then show ?case by simp
next
  case (Cons call calls)
  obtain env rawJson where call: "call = (env, rawJson)" by (cases call)
  let ?s0 = "s\<lparr>fs := env (fs s)\<rparr>"
  obtain r s1 where snd1: "Send rawJson ?s0 = (r, s1)" by (cases "Send rawJson ?s0")
  obtain rs s2 where many: "sendMany calls s1 = (rs, s2)" by (cases "sendMany calls s1")
  have ih: "counter (ch s2) = counter (ch s1) + of_nat (length (filter (\<lambda>r. r = None) rs))"
    using Cons.IH [of s1] many by simp
  have step: "counter (ch s1) = (if r = None then counter (ch s) + 1 else counter (ch s))"
    using Send_error_counter [of rawJson ?s0] Send_ok_counter [of rawJson ?s0] snd1 by auto
  show ?case
    using call snd1 many ih step by simp
qed

text \<open>
  Claim C5.  A \<open>Send\<close> whose staging write fails, or whose write succeeds and whose
  rename fails, returns that error and leaves the outgoing counter as it was; so
  does every \<open>Send\<close> that returns an error.  A \<open>Send\<close> that succeeds adds exactly one
  to the counter.  Over any run of sends, with the file system changing in between,
  the counter has advanced by the number of sends that succeeded: successful sends
  use consecutive counter values.
\<close>

theorem Send_counter_discipline:
  "(\<not> closed (ch s) \<and> fst (ioutil_WriteFile (staged_path s) rawJson (fs s)) = Some err
      \<longrightarrow> fst (Send rawJson s) = Some err
          \<and> counter (ch (snd (Send rawJson s))) = counter (ch s))
   \<and> (\<not> closed (ch s) \<and> fst (ioutil_WriteFile (staged_path s) rawJson (fs s)) = None
        \<and> fst (os_Rename (staged_path s) (final_path s)
                 (snd (ioutil_WriteFile (staged_path s) rawJson (fs s)))) = Some err
      \<longrightarrow> fst (Send rawJson s) = Some err
          \<and> counter (ch (snd (Send rawJson s))) = counter (ch s))
   \<and> (fst (Send rawJson s) \<noteq> None
      \<longrightarrow> counter (ch (snd (Send rawJson s))) = counter (ch s))
   \<and> (fst (Send rawJson s) = None
      \<longrightarrow> counter (ch (snd (Send rawJson s))) = counter (ch s) + 1)
   \<and> counter (ch (snd (sendMany calls s))) =
       counter (ch s) + of_nat (length (filter (\<lambda>r. r = None) (fst (sendMany calls s))))"
proof -
  have 1: "fst (Send rawJson s) = Some err \<Longrightarrow> counter (ch (snd (Send rawJson s))) = counter (ch s)"
    using Send_error_counter [of rawJson s] by simp
  show ?thesis
    using 1 Send_write_failure [of s rawJson err] Send_rename_failure [of s rawJson err]
      Send_error_counter [of rawJson s] Send_ok_counter [of rawJson s] sendMany_counter [of calls s]
    by blast
qed

theorem Send_counter_discipline_witness:
  "fst (Send ''A'' gone_state) = Some (PathError ''open'' ''/chan/tmp/worker-20160102000000-000'')
   \<and> counter (ch (snd (Send ''A'' gone_state))) = 0
   \<and> fst (Send ''A'' blocked_state) = Some (PathError ''rename'' ''/chan/tmp/master-20160102000000-000'')
   \<and> counter (ch (snd (Send ''A'' blocked_state))) = 0
   \<and> fst (Send ''A'' master_state) = None
   \<and> counter (ch (snd (Send ''A'' master_state))) = 1
   \<and> fst (sendMany send_calls blocked_state) =
       [Some (PathError ''rename'' ''/chan/tmp/master-20160102000000-000''),
        Some (PathError ''rename'' ''/chan/tmp/master-20160102000000-000''), None, None]
   \<and> counter (ch (snd (sendMany send_calls blocked_state))) = 2"
proof -
  let ?e1 = "PathError ''open'' ''/chan/tmp/worker-20160102000000-000''"
  let ?e2 = "PathError ''rename'' ''/chan/tmp/master-20160102000000-000''"
  have g1: "\<not> closed (ch gone_state)" by code_simp
  have g2: "fst (ioutil_WriteFile (staged_path gone_state) ''A'' (fs gone_state)) = Some ?e1"
    by code_simp
  have b1: "\<not> closed (ch blocked_state)" by code_simp
  have b2: "fst (ioutil_WriteFile (staged_path blocked_state) ''A'' (fs blocked_state)) = None"
    by code_simp
  have b3: "fst (os_Rename (staged_path blocked_state) (final_path blocked_state)
                  (snd (ioutil_WriteFile (staged_path blocked_state) ''A'' (fs blocked_state)))) = Some ?e2"
    by code_simp
  have m1: "fst (Send ''A'' master_state) = None" by code_simp
  have c0: "counter (ch gone_state) = 0" "counter (ch blocked_state) = 0" "counter (ch master_state) = 0"
    by code_simp+
  have r: "fst (sendMany send_calls blocked_state) = [Some ?e2, Some ?e2, None, None]"
    by code_simp
  from Send_counter_discipline [of gone_state "''A''" ?e1 "[]"] g1 g2 c0
  have w1: "fst (Send ''A'' gone_state) = Some ?e1 \<and> counter (ch (snd (Send ''A'' gone_state))) = 0"
    by simp
  from Send_counter_discipline [of blocked_state "''A''" ?e2 send_calls] b1 b2 b3 c0 r
  have w2: "fst (Send ''A'' blocked_state) = Some ?e2
            \<and> counter (ch (snd (Send ''A'' blocked_state))) = 0
            \<and> counter (ch (snd (sendMany send_calls blocked_state))) = 2"
    by simp
  from Send_counter_discipline [of master_state "''A''" ?e1 "[]"] m1 c0
  have w3: "counter (ch (snd (Send ''A'' master_state))) = 1"
    by simp
  from w1 w2 w3 m1 r show ?thesis by blast
qed

lemma Send_rename_failure_fs:
  assumes "\<not> closed (ch s)"
    and "fst (ioutil_WriteFile (staged_path s) rawJson (fs s)) = None"
    and "fst (os_Rename (staged_path s) (final_path s)
              (snd (ioutil_WriteFile (staged_path s) rawJson (fs s)))) = Some err"
  shows "fs (snd (Send rawJson s)) = snd (ioutil_WriteFile (staged_path s) rawJson (fs s))"
proof -
  let ?w = "ioutil_WriteFile (staged_path s) rawJson (fs s)"
  let ?r = "os_Rename (staged_path s) (final_path s) (snd ?w)"
  have "snd ?r = snd ?w" using assms(3) by (rule os_Rename_failure)
  moreover have "fs (snd (Send rawJson s)) = snd ?r"
    using assms
    by (auto simp: Send_def logs_def Let_def staged_path_def final_path_def split: prod.splits option.splits)
  ultimately show ?thesis by simp
qed

lemma Send_success_fs:
  assumes "fst (Send rawJson s) = None"
  shows "fst (ioutil_WriteFile (staged_path s) rawJson (fs s)) = None
         \<and> fst (os_Rename (staged_path s) (final_path s)
              (snd (ioutil_WriteFile (staged_path s) rawJson (fs s)))) = None
         \<and> fs (snd (Send rawJson s)) =
             snd (os_Rename (staged_path s) (final_path s)
               (snd (ioutil_WriteFile (staged_path s) rawJson (fs s))))"
  using assms
  by (auto simp: Send_def logs_def Let_def staged_path_def final_path_def split: prod.splits option.splits if_splits)

text \<open>
  Claim C9 as it is stated also says that failed sends accumulate files under \<open>tmp\<close> until the
  master's \<open>Destroy\<close>.  They do not: after two failed sends \<open>tmp\<close> holds one file,
  because the counter and so the name did not change, and once the rename works
  again the next \<open>Send\<close> moves that file into the channel directory and \<open>tmp\<close> is
  empty, without any \<open>Destroy\<close>.
\<close>

theorem staged_files_do_not_accumulate:
  "fst (sendMany [(id, ''A''), (id, ''B'')] blocked_state) =
     [Some (PathError ''rename'' ''/chan/tmp/master-20160102000000-000''),
      Some (PathError ''rename'' ''/chan/tmp/master-20160102000000-000'')]
   \<and> ioutil_ReadDir ''/chan/tmp'' (fs (snd (sendMany [(id, ''A''), (id, ''B'')] blocked_state))) =
       Inr [''master-20160102000000-000'']
   \<and> fst (sendMany [(id, ''A''), (id, ''B''), (clear_faults, ''B'')] blocked_state) =
     [Some (PathError ''rename'' ''/chan/tmp/master-20160102000000-000''),
      Some (PathError ''rename'' ''/chan/tmp/master-20160102000000-000''), None]
   \<and> ioutil_ReadDir ''/chan/tmp''
        (fs (snd (sendMany [(id, ''A''), (id, ''B''), (clear_faults, ''B'')] blocked_state))) = Inr []
   \<and> ioutil_ReadDir ''/chan''
        (fs (snd (sendMany [(id, ''A''), (id, ''B''), (clear_faults, ''B'')] blocked_state))) =
       Inr [''master-20160102000000-000'', ''tmp'']"
  by code_simp

text \<open>
  Claim C9, amended.  When the staging write succeeds and the rename fails, \<open>Send\<close>
  returns the error and does nothing more to the file system: the staged file is in
  \<open>tmp\<close> with the payload.  The next \<open>Send\<close> stages under the same name.  A \<open>Send\<close>
  that succeeds leaves no file under its staged name and the payload under the final
  name.
\<close>

theorem Send_leaves_staged_file:
  "(\<not> closed (ch s) \<and> fst (ioutil_WriteFile (staged_path s) rawJson (fs s)) = None
      \<and> fst (os_Rename (staged_path s) (final_path s)
               (snd (ioutil_WriteFile (staged_path s) rawJson (fs s)))) = Some err
    \<longrightarrow> fst (Send rawJson s) = Some err
        \<and> fs (snd (Send rawJson s)) = snd (ioutil_WriteFile (staged_path s) rawJson (fs s))
        \<and> lookup (fs (snd (Send rawJson s))) (staged_path s) = Some (File rawJson)
        \<and> staged_path (snd (Send rawJson s)) = staged_path s)
   \<and> (fst (Send rawJson s) = None \<and> path_Clean (staged_path s) \<noteq> path_Clean (final_path s)
    \<longrightarrow> lookup (fs (snd (Send rawJson s))) (staged_path s) = None
        \<and> lookup (fs (snd (Send rawJson s))) (final_path s) = Some (File rawJson))"
proof (intro conjI impI)
  assume a: "\<not> closed (ch s) \<and> fst (ioutil_WriteFile (staged_path s) rawJson (fs s)) = None
      \<and> fst (os_Rename (staged_path s) (final_path s)
               (snd (ioutil_WriteFile (staged_path s) rawJson (fs s)))) = Some err"
  then show "fst (Send rawJson s) = Some err"
    using Send_rename_failure by blast
  from a show f: "fs (snd (Send rawJson s)) = snd (ioutil_WriteFile (staged_path s) rawJson (fs s))"
    using Send_rename_failure_fs by blast
  from a show "lookup (fs (snd (Send rawJson s))) (staged_path s) = Some (File rawJson)"
    using f ioutil_WriteFile_lookup by simp
  from a have "fst (Send rawJson s) \<noteq> None"
    using Send_rename_failure [of s rawJson err] by simp
  then have "counter (ch (snd (Send rawJson s))) = counter (ch s)"
    by (rule Send_error_counter)
  then show "staged_path (snd (Send rawJson s)) = staged_path s"
    by (simp add: staged_path_def Send_frame)
next
  assume b: "fst (Send rawJson s) = None \<and> path_Clean (staged_path s) \<noteq> path_Clean (final_path s)"
  then show "lookup (fs (snd (Send rawJson s))) (staged_path s) = None"
    using Send_success_fs [of rawJson s] os_Rename_moves by simp
  from b show "lookup (fs (snd (Send rawJson s))) (final_path s) = Some (File rawJson)"
    using Send_success_fs [of rawJson s] os_Rename_target ioutil_WriteFile_lookup by simp
qed

theorem Send_leaves_staged_file_witness:
  "fst (Send ''A'' blocked_state) = Some (PathError ''rename'' ''/chan/tmp/master-20160102000000-000'')
   \<and> lookup (fs (snd (Send ''A'' blocked_state))) ''/chan/tmp/master-20160102000000-000'' = Some (File ''A'')
   \<and> staged_path (snd (Send ''A'' blocked_state)) = ''/chan/tmp/master-20160102000000-000''
   \<and> fst (Send ''A'' master_state) = None
   \<and> lookup (fs (snd (Send ''A'' master_state))) ''/chan/tmp/master-20160102000000-000'' = None
   \<and> lookup (fs (snd (Send ''A'' master_state))) ''/chan/master-20160102000000-000'' = Some (File ''A'')"
proof -
  let ?e = "PathError ''rename'' ''/chan/tmp/master-20160102000000-000''"
  have sp: "staged_path blocked_state = ''/chan/tmp/master-20160102000000-000''"
    "staged_path master_state = ''/chan/tmp/master-20160102000000-000''"
    "final_path master_state = ''/chan/master-20160102000000-000''"
    by code_simp+
  have b1: "\<not> closed (ch blocked_state)" by code_simp
  have b2: "fst (ioutil_WriteFile (staged_path blocked_state) ''A'' (fs blocked_state)) = None"
    by code_simp
  have b3: "fst (os_Rename (staged_path blocked_state) (final_path blocked_state)
                  (snd (ioutil_WriteFile (staged_path blocked_state) ''A'' (fs blocked_state)))) = Some ?e"
    by code_simp
  have m1: "fst (Send ''A'' master_state) = None" by code_simp
  have m2: "path_Clean (staged_path master_state) \<noteq> path_Clean (final_path master_state)"
    by code_simp
  from Send_leaves_staged_file [of blocked_state "''A''" ?e] b1 b2 b3
  have "fst (Send ''A'' blocked_state) = Some ?e
     \<and> lookup (fs (snd (Send ''A'' blocked_state))) (staged_path blocked_state) = Some (File ''A'')
     \<and> staged_path (snd (Send ''A'' blocked_state)) = staged_path blocked_state"
    by blast
  then have w1: "fst (Send ''A'' blocked_state) = Some ?e
     \<and> lookup (fs (snd (Send ''A'' blocked_state))) ''/chan/tmp/master-20160102000000-000'' = Some (File ''A'')
     \<and> staged_path (snd (Send ''A'' blocked_state)) = ''/chan/tmp/master-20160102000000-000''"
    by (simp only: sp)
  from Send_leaves_staged_file [of master_state "''A''" ?e] m1 m2
  have "lookup (fs (snd (Send ''A'' master_state))) (staged_path master_state) = None
     \<and> lookup (fs (snd (Send ''A'' master_state))) (final_path master_state) = Some (File ''A'')"
    by blast
  then have w2: "lookup (fs (snd (Send ''A'' master_state))) ''/chan/tmp/master-20160102000000-000'' = None
     \<and> lookup (fs (snd (Send ''A'' master_state))) ''/chan/master-20160102000000-000'' = Some (File ''A'')"
    by (simp only: sp)
  from w1 w2 m1 show ?thesis by blast
qed

section \<open>Failures while receiving\<close>

text \<open>
  Claim C6.  When the read of a file fails, \<open>consume\<close> changes nothing but the log:
  the file system is as before (the file is not removed), \<open>recvCounter\<close> is not
  advanced and nothing is pushed to the stream; the failure is written to the log
  as an error.
\<close>

theorem consume_read_failure:
  assumes "ioutil_ReadFile filepath (fs s) = Inl err"
  shows "consume filepath s =
           s\<lparr>logged := logged s @
                [Logf Debug ''consuming message under path: %v'' [S filepath],
                 Logf Error (''message %v failed to read: %v '' @ [CHR 0x0A])
                   [S filepath, E err]]\<rparr>
         \<and> fs (consume filepath s) = fs s
         \<and> recvCounter (ch (consume filepath s)) = recvCounter (ch s)
         \<and> onMessageChan (ch (consume filepath s)) = onMessageChan (ch s)"
  using assms by (simp add: consume_def logs_def)

theorem consume_read_failure_witness:
  "ioutil_ReadFile locked_file (fs locked_state) = Inl (PathError ''open'' locked_file)
   \<and> lookup (fs (consume locked_file locked_state)) locked_file = Some (File ''A'')
   \<and> recvCounter (ch (consume locked_file locked_state)) = 0
   \<and> onMessageChan (ch (consume locked_file locked_state)) = []"
proof -
  have h: "ioutil_ReadFile locked_file (fs locked_state) = Inl (PathError ''open'' locked_file)"
    by code_simp
  have l: "lookup (fs locked_state) locked_file = Some (File ''A'')"
    by code_simp
  have c: "ch locked_state = demo_channel ''master''"
    by (simp add: locked_state_def)
  from consume_read_failure [OF h] h l c show ?thesis
    by (simp add: demo_channel_def)
qed

text \<open>
  Claim C10.  When the listing of the channel directory fails, \<open>consumeAll\<close> drops
  the error and does what it does on an empty directory: it consumes no file,
  leaves the channel and the file system as they are, and only writes its debug
  line to the log.
\<close>

theorem consumeAll_listing_failure:
  assumes "ioutil_ReadDir (path (ch s)) (fs s) = Inl err"
  shows "consumeAll s =
           s\<lparr>logged := logged s @
                [Log Debug [S ''consuming all the messages under: '', S (path (ch s))]]\<rparr>
         \<and> ch (consumeAll s) = ch s
         \<and> fs (consumeAll s) = fs s
         \<and> (ioutil_ReadDir (path (ch s)) fs_empty = Inr [] \<longrightarrow>
              ch (consumeAll s) = ch (consumeAll (s\<lparr>fs := fs_empty\<rparr>))
              \<and> logged (consumeAll s) = logged (consumeAll (s\<lparr>fs := fs_empty\<rparr>))
              \<and> fs (consumeAll (s\<lparr>fs := fs_empty\<rparr>)) = fs_empty)"
  using assms by (simp add: consumeAll_def logs_def)

theorem consumeAll_listing_failure_witness:
  "ioutil_ReadDir (path (ch gone_state)) (fs gone_state) = Inl (PathError ''open'' ''/chan'')
   \<and> ioutil_ReadDir (path (ch gone_state)) empty_chan_fs = Inr []
   \<and> ch (consumeAll gone_state) = demo_channel ''worker''
   \<and> fs (consumeAll gone_state) = fs gone_state
   \<and> ch (consumeAll (gone_state\<lparr>fs := empty_chan_fs\<rparr>)) = demo_channel ''worker''"
proof -
  have h: "ioutil_ReadDir (path (ch gone_state)) (fs gone_state) = Inl (PathError ''open'' ''/chan'')"
    by code_simp
  have e: "ioutil_ReadDir (path (ch gone_state)) empty_chan_fs = Inr []"
    by code_simp
  have c: "ch gone_state = demo_channel ''worker''"
    by (simp add: gone_state_def)
  note t = consumeAll_listing_failure [OF h, of empty_chan_fs]
  from t c have 1: "ch (consumeAll gone_state) = demo_channel ''worker''"
    by simp
  from t have 2: "fs (consumeAll gone_state) = fs gone_state"
    by simp
  from t e have "ch (consumeAll gone_state) = ch (consumeAll (gone_state\<lparr>fs := empty_chan_fs\<rparr>))"
    by blast
  with 1 have 3: "ch (consumeAll (gone_state\<lparr>fs := empty_chan_fs\<rparr>)) = demo_channel ''worker''"
    by simp
  from h e 1 2 3 show ?thesis
    by blast
qed

section \<open>What the liveness check returns\<close>

lemma row_matches_parsed: "row_matches pid start line \<Longrightarrow> \<not> row_unparsed line"
  by (auto simp: row_matches_def row_unparsed_def)

lemma find_rows_unparsed:
  "row_unparsed line \<Longrightarrow> \<exists>e. find_rows pid start (line # rest) = (False, Some e)"
  by (auto simp: row_unparsed_def Let_def isl_def)

lemma find_rows_matches:
  "row_matches pid start line \<Longrightarrow> find_rows pid start (line # rest) = (True, None)"
  by (auto simp: row_matches_def Let_def)

lemma find_rows_skip:
  "\<not> row_unparsed line \<Longrightarrow> \<not> row_matches pid start line \<Longrightarrow>
     find_rows pid start (line # rest) = find_rows pid start rest"
  by (auto simp: row_matches_def row_unparsed_def Let_def split: sum.splits)

lemma first_row_split:
  "(\<exists>pre line post. x # xs = pre @ line # post \<and> P line \<and> \<not> list_ex R pre) \<longleftrightarrow>
     (P x \<or> (\<not> R x \<and> (\<exists>pre line post. xs = pre @ line # post \<and> P line \<and> \<not> list_ex R pre)))"
proof
  assume "\<exists>pre line post. x # xs = pre @ line # post \<and> P line \<and> \<not> list_ex R pre"
  then obtain pre line post where d: "x # xs = pre @ line # post" "P line" "\<not> list_ex R pre"
    by blast
  show "P x \<or> (\<not> R x \<and> (\<exists>pre line post. xs = pre @ line # post \<and> P line \<and> \<not> list_ex R pre))"
  proof (cases pre)
    case Nil
    with d show ?thesis by simp
  next
    case (Cons y pre')
    with d have "xs = pre' @ line # post" "\<not> R x" "\<not> list_ex R pre'" by auto
    with d(2) show ?thesis by blast
  qed
next
  assume "P x \<or> (\<not> R x \<and> (\<exists>pre line post. xs = pre @ line # post \<and> P line \<and> \<not> list_ex R pre))"
  then show "\<exists>pre line post. x # xs = pre @ line # post \<and> P line \<and> \<not> list_ex R pre"
  proof
    assume "P x"
    then have "x # xs = [] @ x # xs \<and> P x \<and> \<not> list_ex R []" by simp
    then show ?thesis by blast
  next
    assume "\<not> R x \<and> (\<exists>pre line post. xs = pre @ line # post \<and> P line \<and> \<not> list_ex R pre)"
    then obtain pre line post where "\<not> R x" "xs = pre @ line # post" "P line" "\<not> list_ex R pre"
      by blast
    then have "x # xs = (x # pre) @ line # post \<and> P line \<and> \<not> list_ex R (x # pre)" by simp
    then show ?thesis by blast
  qed
qed

lemma find_rows_True:
  "find_rows pid start rows = (True, None) \<longleftrightarrow>
     (\<exists>pre line post. rows = pre @ line # post \<and> row_matches pid start line
        \<and> \<not> list_ex row_unparsed pre)"
proof (induction rows)
  case Nil
  then show ?case by simp
next
  case (Cons l ls)
  consider (u) "row_unparsed l" | (m) "row_matches pid start l"
    | (s) "\<not> row_unparsed l" "\<not> row_matches pid start l"
    by blast
  then show ?case
  proof cases
    case u
    then have "\<not> row_matches pid start l" using row_matches_parsed by blast
    with u find_rows_unparsed [OF u, of pid start ls] show ?thesis
      unfolding first_row_split by auto
  next
    case m
    with find_rows_matches [OF m, of ls] show ?thesis
      unfolding first_row_split by simp
  next
    case s
    with find_rows_skip [OF s, of ls] Cons.IH show ?thesis
      unfolding first_row_split by simp
  qed
qed

lemma find_rows_error:
  "(\<exists>e. find_rows pid start rows = (False, Some e)) \<longleftrightarrow>
     (\<exists>pre line post. rows = pre @ line # post \<and> row_unparsed line
        \<and> \<not> list_ex (\<lambda>l. row_unparsed l \<or> row_matches pid start l) pre)"
proof (induction rows)
  case Nil
  then show ?case by simp
next
  case (Cons l ls)
  consider (u) "row_unparsed l" | (m) "row_matches pid start l"
    | (s) "\<not> row_unparsed l" "\<not> row_matches pid start l"
    by blast
  then show ?case
  proof cases
    case u
    with find_rows_unparsed [OF u, of pid start ls] show ?thesis
      unfolding first_row_split by simp
  next
    case m
    then have "\<not> row_unparsed l" using row_matches_parsed by blast
    with m find_rows_matches [OF m, of ls] show ?thesis
      unfolding first_row_split by simp
  next
    case s
    with find_rows_skip [OF s, of ls] Cons.IH show ?thesis
      unfolding first_row_split by simp
  qed
qed

lemma find_rows_False:
  "find_rows pid start rows = (False, None) \<longleftrightarrow>
     \<not> list_ex (\<lambda>l. row_unparsed l \<or> row_matches pid start l) rows"
proof (induction rows)
  case Nil
  then show ?case by simp
next
  case (Cons l ls)
  consider (u) "row_unparsed l" | (m) "row_matches pid start l"
    | (s) "\<not> row_unparsed l" "\<not> row_matches pid start l"
    by blast
  then show ?case
  proof cases
    case u
    with find_rows_unparsed [OF u, of pid start ls] show ?thesis by auto
  next
    case m
    with find_rows_matches [OF m, of ls] show ?thesis by simp
  next
    case s
    with find_rows_skip [OF s, of ls] Cons.IH show ?thesis by simp
  qed
qed

text \<open>
  Claim C7 as it is stated fails when an unparsed row stands before the others.
  Here \<open>ps\<close> has written a warning in front of the table, so the header is read as a
  row.  The row of process 42 with start time \<open>10:00:00\<close> is in the table, and the
  check returns an error, not true; no row matches process 43, and the check
  returns the error, not false without an error.
\<close>

theorem find_process_misses_later_row:
  "list_ex (row_matches 42 ''10:00:00'') (table_rows ps_output_warned)
   \<and> find_process (Inr ps_output_warned) 42 ''10:00:00'' = (False, Some (NumError ''PID'' ErrSyntax))
   \<and> \<not> list_ex (row_matches 43 ''10:00:00'') (table_rows ps_output_warned)
   \<and> find_process (Inr ps_output_warned) 43 ''10:00:00'' = (False, Some (NumError ''PID'' ErrSyntax))"
  by code_simp

text \<open>
  Claim C7, amended.  The check returns the error of \<open>ps\<close> when the listing fails.
  Otherwise the first row that is unparsed or matches decides: the check returns
  true exactly when some row matches and no row before it is unparsed; it returns
  false without an error exactly when no row matches and none is unparsed; it
  returns an error exactly when some row is unparsed and no row before it is
  unparsed or matches.  A row whose number of fields is not two is skipped.
\<close>

theorem find_process_first_decisive_row:
  "find_process (Inl err) pid start = (False, Some err)
   \<and> (find_process (Inr output) pid start = (True, None) \<longleftrightarrow>
        (\<exists>pre line post. table_rows output = pre @ line # post
           \<and> row_matches pid start line \<and> \<not> list_ex row_unparsed pre))
   \<and> (find_process (Inr output) pid start = (False, None) \<longleftrightarrow>
        \<not> list_ex (\<lambda>l. row_unparsed l \<or> row_matches pid start l) (table_rows output))
   \<and> ((\<exists>e. find_process (Inr output) pid start = (False, Some e)) \<longleftrightarrow>
        (\<exists>pre line post. table_rows output = pre @ line # post \<and> row_unparsed line
           \<and> \<not> list_ex (\<lambda>l. row_unparsed l \<or> row_matches pid start l) pre))
   \<and> (length (strings_Fields line) \<noteq> 2 \<longrightarrow>
        find_rows pid start (line # rest) = find_rows pid start rest)"
proof -
  have p: "find_process (Inr output) pid start = find_rows pid start (table_rows output)"
    by (simp add: find_process_def table_rows_def)
  have 1: "find_process (Inl err) pid start = (False, Some err)"
    by (simp add: find_process_def)
  have 5: "length (strings_Fields line) \<noteq> 2 \<longrightarrow>
        find_rows pid start (line # rest) = find_rows pid start rest"
    by (simp add: Let_def)
  show ?thesis
    unfolding p using 1 5 find_rows_True [of pid start "table_rows output"]
      find_rows_False [of pid start "table_rows output"]
      find_rows_error [of pid start "table_rows output"]
    by blast
qed

theorem find_process_first_decisive_row_witness:
  "find_process (Inr ps_output) 42 ''10:00:00'' = (True, None)
   \<and> find_process (Inr ps_output) 42 ''10:00:01'' = (False, None)
   \<and> length (strings_Fields ''    1   Oct 28'') \<noteq> 2
   \<and> find_rows 42 ''10:00:00'' (table_rows ps_output) =
       find_rows 42 ''10:00:00'' [''   42 10:00:00'', ''  977 10:02:13'', []]
   \<and> (\<exists>e. find_process (Inr ps_output_warned) 42 ''10:00:00'' = (False, Some e))"
proof -
  let ?post = "[''  977 10:02:13'', []]"
  have r: "table_rows ps_output = [''    1   Oct 28''] @ ''   42 10:00:00'' # ?post"
    by code_simp
  have m: "row_matches 42 ''10:00:00'' ''   42 10:00:00''"
    by code_simp
  have u: "\<not> list_ex row_unparsed [''    1   Oct 28'']"
    by code_simp
  have n: "\<not> list_ex (\<lambda>l. row_unparsed l \<or> row_matches 42 ''10:00:01'' l) (table_rows ps_output)"
    by code_simp
  have l: "length (strings_Fields ''    1   Oct 28'') \<noteq> 2"
    by code_simp
  have w: "table_rows ps_output_warned = [] @ ''  PID  STARTED'' # [''   42 10:00:00'', []]"
    by code_simp
  have wu: "row_unparsed ''  PID  STARTED''"
    by code_simp
  have we: "\<not> list_ex (\<lambda>l. row_unparsed l \<or> row_matches 42 ''10:00:00'' l) []"
    by simp
  note t = find_process_first_decisive_row
  from t [of _ 42 "''10:00:00''" ps_output] r m u
  have 1: "find_process (Inr ps_output) 42 ''10:00:00'' = (True, None)"
    by blast
  from t [of _ 42 "''10:00:01''" ps_output] n
  have 2: "find_process (Inr ps_output) 42 ''10:00:01'' = (False, None)"
    by blast
  from t [of _ 42 "''10:00:00''" ps_output "''    1   Oct 28''" "''   42 10:00:00'' # ?post"] l
  have "find_rows 42 ''10:00:00'' (''    1   Oct 28'' # ''   42 10:00:00'' # ?post) =
        find_rows 42 ''10:00:00'' (''   42 10:00:00'' # ?post)"
    by blast
  with r have 3: "find_rows 42 ''10:00:00'' (table_rows ps_output) =
       find_rows 42 ''10:00:00'' [''   42 10:00:00'', ''  977 10:02:13'', []]"
    by simp
  from t [of _ 42 "''10:00:00''" ps_output_warned] w wu we
  have 4: "\<exists>e. find_process (Inr ps_output_warned) 42 ''10:00:00'' = (False, Some e)"
    by blast
  from 1 2 3 4 l show ?thesis
    by blast
qed

section \<open>Destroy\<close>

lemma os_RemoveAll_refused:
  "endsWithDot p \<Longrightarrow> os_RemoveAll p f = (if p = [] then None else Some (PathError ''RemoveAll'' p), f)"
  by (simp add: os_RemoveAll_def)







text \<open>
  A channel path that ends in a dot element: \<open>os.RemoveAll\<close> refuses it, \<open>Destroy\<close>
  logs the error, and the directory is as \<open>Close\<close> left it.
\<close>

lemma Destroy_dotted_path:
  "nodes (fs (Destroy ''master'' dotted_state)) = nodes (fs (Close dotted_state))
   \<and> lookup (fs (Destroy ''master'' dotted_state)) ''/chan/master-20160102000000-000''
       = Some (File ''B'')
   \<and> last (logged (Destroy ''master'' dotted_state)) =
       Logf Error ''failed to remove directory %v : %v''
         [S ''/chan/.'', E (PathError ''RemoveAll'' ''/chan/.'')]"
  by code_simp

end
